theory Spec2Isabelle
  imports Main "HOL-Library.Word" "HOL-Library.Signed_Division" "HOL-Library.Log_Nat"
begin

unbundle bit_operations_syntax

section \<open>Strings and the library functions used by \<open>pollOnce\<close>\<close>

text \<open>
  A Go string is a sequence of bytes; \<^typ>\<open>string\<close> is a list of 8-bit characters, so
  the two coincide. The functions of this section are the parts of Go's standard library
  that \<open>src/main.go\<close> calls (\<open>strings.Split\<close>, \<open>strings.TrimSpace\<close>,
  \<open>strconv.ParseUint\<close>), written after their documented behaviour and library source.
\<close>

subsection \<open>\<open>strings.Split(s, ",")\<close>\<close>

text \<open>
  Splitting at every comma: a string with \<open>n\<close> commas gives \<open>n + 1\<close> segments, empty
  ones included; the empty string gives one empty segment. A byte other than a comma
  joins the first segment of the rest, which always exists (the last case is never taken).
\<close>

fun Split :: "string \<Rightarrow> string list" where
  "Split [] = [[]]"
| "Split (c # cs) =
     (if c = CHR '','' then [] # Split cs
      else (case Split cs of
              p # ps \<Rightarrow> (c # p) # ps
            | [] \<Rightarrow> [[c]]))"

subsection \<open>\<open>strings.TrimSpace\<close>\<close>

text \<open>
  \<open>TrimSpace\<close> removes leading and trailing white space as defined by Unicode
  (\<open>unicode.IsSpace\<close>). The code points concerned and their UTF-8 encodings are:
  U+0009..U+000D and U+0020 (one byte each), U+0085 (\<open>C2 85\<close>), U+00A0 (\<open>C2 A0\<close>),
  U+1680 (\<open>E1 9A 80\<close>), U+2000..U+200A (\<open>E2 80 80\<close> .. \<open>E2 80 8A\<close>), U+2028
  (\<open>E2 80 A8\<close>), U+2029 (\<open>E2 80 A9\<close>), U+202F (\<open>E2 80 AF\<close>), U+205F (\<open>E2 81 9F\<close>)
  and U+3000 (\<open>E3 80 80\<close>).
  Go decodes one rune at a time, from the front (\<open>TrimLeftFunc\<close>) and then from the
  back (\<open>TrimRightFunc\<close>); a byte sequence that is not valid UTF-8 decodes to
  \<open>RuneError\<close>, which is not a space. Since the decoder accepts shortest encodings only,
  the first rune is a space exactly when the string starts with one of the encodings
  above, and the last rune is a space exactly when the string ends with one of them.
\<close>

definition spaceEncodings :: "string list" where
  "spaceEncodings =
     [[CHR 0x09], [CHR 0x0A], [CHR 0x0B], [CHR 0x0C], [CHR 0x0D], [CHR 0x20],
      [CHR 0xC2, CHR 0x85], [CHR 0xC2, CHR 0xA0],
      [CHR 0xE1, CHR 0x9A, CHR 0x80],
      [CHR 0xE2, CHR 0x80, CHR 0x80], [CHR 0xE2, CHR 0x80, CHR 0x81],
      [CHR 0xE2, CHR 0x80, CHR 0x82], [CHR 0xE2, CHR 0x80, CHR 0x83],
      [CHR 0xE2, CHR 0x80, CHR 0x84], [CHR 0xE2, CHR 0x80, CHR 0x85],
      [CHR 0xE2, CHR 0x80, CHR 0x86], [CHR 0xE2, CHR 0x80, CHR 0x87],
      [CHR 0xE2, CHR 0x80, CHR 0x88], [CHR 0xE2, CHR 0x80, CHR 0x89],
      [CHR 0xE2, CHR 0x80, CHR 0x8A],
      [CHR 0xE2, CHR 0x80, CHR 0xA8], [CHR 0xE2, CHR 0x80, CHR 0xA9],
      [CHR 0xE2, CHR 0x80, CHR 0xAF],
      [CHR 0xE2, CHR 0x81, CHR 0x9F],
      [CHR 0xE3, CHR 0x80, CHR 0x80]]"

text \<open>The width in bytes of the space at the front of \<open>s\<close>; 0 when there is none.\<close>

definition spaceWidth :: "string list \<Rightarrow> string \<Rightarrow> nat" where
  "spaceWidth ws s =
     (case find (\<lambda>w. take (length w) s = w) ws of
        None \<Rightarrow> 0
      | Some w \<Rightarrow> length w)"

fun trimFront :: "string list \<Rightarrow> string \<Rightarrow> string" where
  "trimFront ws [] = []"
| "trimFront ws (c # cs) =
     (case spaceWidth ws (c # cs) of
        0 \<Rightarrow> c # cs
      | Suc k \<Rightarrow> trimFront ws (drop k cs))"

text \<open>
  Trimming the back is trimming the front of the reversed string, against the reversed
  encodings.
\<close>

definition TrimSpace :: "string \<Rightarrow> string" where
  "TrimSpace s =
     rev (trimFront (map rev spaceEncodings) (rev (trimFront spaceEncodings s)))"

subsection \<open>\<open>strconv.ParseUint(s, 10, 64)\<close>\<close>

text \<open>
  The library function, at base 10 and bit size 64. It returns a value together with an
  error: a syntax error comes with the value 0, a range error with the largest 64-bit
  value. The loop reads the bytes from the left and returns at the first byte that is not
  a digit of the base, or as soon as the number read so far no longer fits. (Underscores
  and base prefixes are read with base 0 only.)
\<close>

datatype numError = ErrSyntax | ErrRange

type_synonym uint64 = "64 word"

definition maxVal :: uint64 where
  "maxVal = push_bit 64 1 - 1"

definition cutoff :: uint64 where
  "cutoff = maxVal div 10 + 1"

definition lower :: "nat \<Rightarrow> nat" where
  "lower c = c OR 32"

text \<open>
  The value of a byte as a digit: \<open>0\<close>..\<open>9\<close> are 0..9, a letter (either case) is 10 and
  upwards, anything else is no digit at all.
\<close>

definition digitVal :: "char \<Rightarrow> nat option" where
  "digitVal c =
     (let b = of_char c :: nat in
      if 48 \<le> b \<and> b \<le> 57 then Some (b - 48)
      else if 97 \<le> lower b \<and> lower b \<le> 122 then Some (lower b - 97 + 10)
      else None)"

fun parseLoop :: "uint64 \<Rightarrow> string \<Rightarrow> uint64 \<times> numError option" where
  "parseLoop n [] = (n, None)"
| "parseLoop n (c # cs) =
     (case digitVal c of
        None \<Rightarrow> (0, Some ErrSyntax)
      | Some d \<Rightarrow>
          if 10 \<le> d then (0, Some ErrSyntax)
          else if cutoff \<le> n then (maxVal, Some ErrRange)
          else
            let n' = n * 10; n1 = n' + of_nat d in
            if n1 < n' \<or> maxVal < n1 then (maxVal, Some ErrRange)
            else parseLoop n1 cs)"

definition ParseUint :: "string \<Rightarrow> uint64 \<times> numError option" where
  "ParseUint s = (if s = [] then (0, Some ErrSyntax) else parseLoop 0 s)"

section \<open>\<open>splitCSV\<close>\<close>

text \<open>
  The loop of \<open>splitCSV\<close> appends the trimmed segment in both branches of its test, so
  an empty segment is kept.
\<close>

definition splitCSV :: "string \<Rightarrow> string list" where
  "splitCSV s =
     foldl (\<lambda>out p.
              let p' = TrimSpace p in
              if p' \<noteq> [] then out @ [p'] else out @ [p'])
       [] (Split s)"

section \<open>The \<open>float64\<close> arithmetic of the threshold checks\<close>

text \<open>
  The percentages and the network figure are computed in \<open>float64\<close>. A finite
  \<open>float64\<close> is a rational number, and each operation of IEEE 754 (here the
  conversion from \<open>uint64\<close>, the division and the multiplication) returns the exact
  result rounded to the nearest number with a 53-bit significand, ties to the even
  significand. Each operation is rounded on its own: no fused operation exists for a
  division followed by a multiplication. The model rounds with an unbounded exponent: the
  values of \<open>pollOnce\<close> are 0 or lie between \<open>2\<^sup>-\<^sup>6\<^sup>4\<close> and \<open>2\<^sup>7\<^sup>1\<close> (quotients and
  products of integers below \<open>2\<^sup>6\<^sup>4\<close> and the constants 100, 8 and 1000000), far
  from the overflow and subnormal ranges of \<open>float64\<close> (lemmas \<open>float64_of_range\<close>,
  \<open>quotient_range\<close>, \<open>percentage_range\<close> and \<open>freeMbit_range\<close> below), and every
  division is guarded against a zero divisor, so neither an infinity nor a NaN arises.
\<close>

type_synonym float64 = rat

text \<open>Rounding to the nearest integer, ties to even.\<close>

definition rne :: "rat \<Rightarrow> int" where
  "rne x =
     (let f = \<lfloor>x\<rfloor>; r = x - of_int f in
      if r < 1 / 2 then f
      else if 1 / 2 < r then f + 1
      else if even f then f else f + 1)"

text \<open>The binary exponent of a positive rational: \<open>2\<^sup>e \<le> q < 2\<^sup>e\<^sup>+\<^sup>1\<close>.\<close>

definition ilog2 :: "rat \<Rightarrow> int" where
  "ilog2 q =
     (case quotient_of q of
        (n, d) \<Rightarrow>
          let e0 = bitlen n - bitlen d in
          if power_int 2 e0 \<le> q then e0 else e0 - 1)"

definition round_f64 :: "rat \<Rightarrow> float64" where
  "round_f64 q =
     (if q \<le> 0 then 0
      else let s = power_int 2 (ilog2 q - 52) in of_int (rne (q / s)) * s)"

text \<open>The conversion \<open>float64(x)\<close> of a \<open>uint64\<close>, and the two operations used.\<close>

definition float64_of :: "uint64 \<Rightarrow> float64" where
  "float64_of w = round_f64 (of_int (uint w))"

definition fdiv :: "float64 \<Rightarrow> float64 \<Rightarrow> float64" where
  "fdiv a b = round_f64 (a / b)"

definition fmul :: "float64 \<Rightarrow> float64 \<Rightarrow> float64" where
  "fmul a b = round_f64 (a * b)"

section \<open>\<open>pollOnce\<close>\<close>

text \<open>The task settings of \<open>src/main.go\<close>.\<close>

definition loadAverageThreshold :: nat where
  "loadAverageThreshold = 30"

definition memoryUsageThreshold :: nat where
  "memoryUsageThreshold = 80"

definition freeDiscSpaceThreshold :: nat where
  "freeDiscSpaceThreshold = 90"

definition networkBandwidthThreshold :: nat where
  "networkBandwidthThreshold = 90"

text \<open>
  The errors \<open>pollOnce\<close> returns, one constructor for each \<open>return\<close> of an error, in
  the order of the source.
\<close>

datatype error =
    ClientError
  | BadStatus nat
  | ReadError
  | UnexpectedFieldNumber nat
  | TooManyErrors
  | MemTotalZero
  | DiskTotalZero
  | NetCapZero

text \<open>
  A line printed on standard output. Each constructor stands for one \<open>Printf\<close> or
  \<open>Println\<close> of the source with its argument: \<open>LoadLine v\<close> for
  \<open>"Load Average is too high: %d"\<close>, \<open>MemLine p\<close> for \<open>"Memory usage too high: %f%%"\<close>,
  \<open>DiskLine k\<close> for \<open>"Free disk space is too low: %d Mb left"\<close> (an \<open>int64\<close>),
  \<open>NetLine r\<close> for \<open>"Network bandwidth usage high: %f Mbit/s available"\<close> and
  \<open>UnableLine\<close> for \<open>"Unable to fetch server statistic."\<close>.
\<close>

datatype line =
    LoadLine uint64
  | MemLine float64
  | DiskLine int
  | NetLine float64
  | UnableLine

text \<open>
  What the HTTP client hands back: the request fails, or a response arrives with a
  status code and a body that can be read (the bytes) or not.
\<close>

datatype response = RequestFailed | Response nat "string option"

text \<open>
  The local variables of \<open>pollOnce\<close> once the seven fields have been read (lines
  82 to 113): the seven values and the number of fields whose \<open>ParseUint\<close> returned an
  error. Each value is what \<open>ParseUint\<close> returned, with or without an error. The
  fields are read by index; \<open>pollOnce\<close> does so only after it has checked that there
  are seven of them.
\<close>

record metrics =
  loadAvg :: uint64
  memTotal :: uint64
  memUsed :: uint64
  diskTotal :: uint64
  diskUsed :: uint64
  netCap :: uint64
  netUsed :: uint64
  errNum :: nat

definition countErr :: "numError option \<Rightarrow> nat \<Rightarrow> nat" where
  "countErr err n = (if err \<noteq> None then n + 1 else n)"

definition parseFields :: "string list \<Rightarrow> metrics" where
  "parseFields parts =
     (let n0 = 0;
          (v0, err) = ParseUint (parts ! 0); n1 = countErr err n0;
          (v1, err) = ParseUint (parts ! 1); n2 = countErr err n1;
          (v2, err) = ParseUint (parts ! 2); n3 = countErr err n2;
          (v3, err) = ParseUint (parts ! 3); n4 = countErr err n3;
          (v4, err) = ParseUint (parts ! 4); n5 = countErr err n4;
          (v5, err) = ParseUint (parts ! 5); n6 = countErr err n5;
          (v6, err) = ParseUint (parts ! 6); n7 = countErr err n6
      in \<lparr>loadAvg = v0, memTotal = v1, memUsed = v2, diskTotal = v3, diskUsed = v4,
          netCap = v5, netUsed = v6, errNum = n7\<rparr>)"

text \<open>The computed figures of the four checks.\<close>

definition memPct :: "metrics \<Rightarrow> float64" where
  "memPct m = fmul (fdiv (float64_of (memUsed m)) (float64_of (memTotal m))) 100"

definition diskPct :: "metrics \<Rightarrow> float64" where
  "diskPct m = fmul (fdiv (float64_of (diskUsed m)) (float64_of (diskTotal m))) 100"

definition netPct :: "metrics \<Rightarrow> float64" where
  "netPct m = fmul (fdiv (float64_of (netUsed m)) (float64_of (netCap m))) 100"

text \<open>
  \<open>int64(diskTotal - diskUsed) / (1024 * 1024)\<close>: the subtraction is on \<open>uint64\<close> and
  wraps, the conversion reads the 64 bits as two's complement, and Go's integer division
  truncates towards zero.
\<close>

definition freeMB :: "metrics \<Rightarrow> int" where
  "freeMB m = sint (diskTotal m - diskUsed m) sdiv (1024 * 1024)"

text \<open>\<open>(float64(netCap - netUsed) * 8.0) / 1_000_000.0\<close>, the subtraction on \<open>uint64\<close>.\<close>

definition freeMbit :: "metrics \<Rightarrow> float64" where
  "freeMbit m = fdiv (fmul (float64_of (netCap m - netUsed m)) 8) 1000000"

text \<open>
  The four checks (lines 119 to 155). Standard output is threaded through: \<open>out\<close> holds
  the lines printed so far, and the result is the returned error together with the
  output at the moment of the return.
\<close>

definition checks :: "metrics \<Rightarrow> line list \<Rightarrow> error option \<times> line list" where
  "checks m out =
     (let out1 = (if of_nat loadAverageThreshold < loadAvg m
                  then out @ [LoadLine (loadAvg m)] else out)
      in if memTotal m = 0 then (Some MemTotalZero, out1)
      else
        let out2 = (if of_nat memoryUsageThreshold < memPct m
                    then out1 @ [MemLine (memPct m)] else out1)
        in if diskTotal m = 0 then (Some DiskTotalZero, out2)
        else
          let out3 = (if of_nat freeDiscSpaceThreshold < diskPct m
                      then out2 @ [DiskLine (freeMB m)] else out2)
          in if netCap m = 0 then (Some NetCapZero, out3)
          else
            let out4 = (if of_nat networkBandwidthThreshold < netPct m
                        then out3 @ [NetLine (freeMbit m)] else out3)
            in (None, out4))"

text \<open>Lines 76 to 155: from the body of the response to the result.\<close>

definition pollBody :: "string \<Rightarrow> line list \<Rightarrow> error option \<times> line list" where
  "pollBody body out =
     (let line = TrimSpace body;
          parts = splitCSV line
      in if length parts \<noteq> 7 then (Some (UnexpectedFieldNumber (length parts)), out)
      else
        let m = parseFields parts
        in if 3 < errNum m then (Some TooManyErrors, out)
        else checks m out)"

definition pollOnce :: "response \<Rightarrow> line list \<Rightarrow> error option \<times> line list" where
  "pollOnce resp out =
     (case resp of
        RequestFailed \<Rightarrow> (Some ClientError, out)
      | Response status body \<Rightarrow>
          if status \<noteq> 200 then (Some (BadStatus status), out)
          else
            (case body of
               None \<Rightarrow> (Some ReadError, out)
             | Some bytes \<Rightarrow> pollBody bytes out))"

text \<open>One tick of the loop of \<open>main\<close>: a returned error prints the notice.\<close>

definition tick :: "response \<Rightarrow> line list \<Rightarrow> line list" where
  "tick resp out =
     (case pollOnce resp out of
        (Some e, out') \<Rightarrow> out' @ [UnableLine]
      | (None, out') \<Rightarrow> out')"

section \<open>Notions used to state the properties\<close>

text \<open>
  The local variables of \<open>pollOnce\<close> for a response body, and the condition under which
  the four checks are reached: seven fields, at most three of them unparsable.
\<close>

definition snapshot :: "string \<Rightarrow> metrics" where
  "snapshot body = parseFields (splitCSV (TrimSpace body))"

definition usable :: "string \<Rightarrow> bool" where
  "usable body \<longleftrightarrow> length (splitCSV (TrimSpace body)) = 7 \<and> errNum (snapshot body) \<le> 3"

text \<open>The lines each of the four checks prints.\<close>

definition loadLines :: "metrics \<Rightarrow> line list" where
  "loadLines m =
     (if of_nat loadAverageThreshold < loadAvg m then [LoadLine (loadAvg m)] else [])"

definition memLines :: "metrics \<Rightarrow> line list" where
  "memLines m =
     (if of_nat memoryUsageThreshold < memPct m then [MemLine (memPct m)] else [])"

definition diskLines :: "metrics \<Rightarrow> line list" where
  "diskLines m =
     (if of_nat freeDiscSpaceThreshold < diskPct m then [DiskLine (freeMB m)] else [])"

definition netLines :: "metrics \<Rightarrow> line list" where
  "netLines m =
     (if of_nat networkBandwidthThreshold < netPct m then [NetLine (freeMbit m)] else [])"

text \<open>
  A decimal numeral is a non-empty string of the ASCII digits \<open>0\<close> to \<open>9\<close>;
  \<open>decimal\<close> is the number it denotes.
\<close>

definition isDigit :: "char \<Rightarrow> bool" where
  "isDigit c \<longleftrightarrow> 48 \<le> (of_char c :: nat) \<and> (of_char c :: nat) \<le> 57"

definition isNumeral :: "string \<Rightarrow> bool" where
  "isNumeral s \<longleftrightarrow> s \<noteq> [] \<and> list_all isDigit s"

definition decimal :: "string \<Rightarrow> nat" where
  "decimal s = foldl (\<lambda>n c. n * 10 + (of_char c - 48)) 0 s"

section \<open>Splitting and parsing\<close>

lemma Split_not_Nil: "Split s \<noteq> []"
  by (induction s) (auto split: list.splits)

lemma length_Split: "length (Split s) = Suc (count_list s (CHR '',''))"
  by (induction s) (auto split: list.splits simp: Split_not_Nil)

lemma foldl_trim:
  "foldl (\<lambda>out p. let p' = TrimSpace p in if p' \<noteq> [] then out @ [p'] else out @ [p']) acc ps
     = acc @ map TrimSpace ps"
  by (induction ps arbitrary: acc) (simp_all add: Let_def)

lemma splitCSV_map: "splitCSV s = map TrimSpace (Split s)"
  unfolding splitCSV_def by (simp only: foldl_trim append_Nil)

lemma length_splitCSV: "length (splitCSV s) = Suc (count_list s (CHR '',''))"
  by (simp add: splitCSV_map length_Split)

lemma errNum_parseFields:
  "errNum (parseFields [p0, p1, p2, p3, p4, p5, p6]) =
     length (filter (\<lambda>p. snd (ParseUint p) \<noteq> None) [p0, p1, p2, p3, p4, p5, p6])"
  by (simp add: parseFields_def countErr_def case_prod_beta Let_def)

lemma length7:
  assumes "length xs = 7"
  obtains p0 p1 p2 p3 p4 p5 p6 where "xs = [p0, p1, p2, p3, p4, p5, p6]"
  using assms by (auto simp: length_Suc_conv eval_nat_numeral)

lemma errNum_count:
  assumes "length parts = 7"
  shows "errNum (parseFields parts) = length (filter (\<lambda>p. snd (ParseUint p) \<noteq> None) parts)"
proof -
  from assms obtain p0 p1 p2 p3 p4 p5 p6 where "parts = [p0, p1, p2, p3, p4, p5, p6]"
    by (rule length7)
  then show ?thesis by (simp only: errNum_parseFields)
qed

lemma maxVal_unat: "unat maxVal = 2 ^ 64 - 1"
  by (simp add: maxVal_def)

lemma cutoff_unat: "unat cutoff = 1844674407370955162"
  by (simp add: cutoff_def maxVal_def)

lemma digitVal_digit: "isDigit c \<Longrightarrow> digitVal c = Some (of_char c - 48)"
  by (simp add: digitVal_def isDigit_def Let_def)

lemma foldl_dec_ge: "a \<le> foldl (\<lambda>n c. n * 10 + (of_char c - 48)) (a::nat) cs"
proof (induction cs arbitrary: a)
  case Nil
  show ?case by simp
next
  case (Cons c cs)
  have "a \<le> a * 10 + (of_char c - 48)" by simp
  also have "\<dots> \<le> foldl (\<lambda>n c. n * 10 + (of_char c - 48)) (a * 10 + (of_char c - 48)) cs"
    by (rule Cons.IH)
  finally show ?case by simp
qed

lemma parseLoop_digits:
  assumes "\<forall>c \<in> set cs. isDigit c"
  shows "parseLoop n cs =
     (let v = foldl (\<lambda>n c. n * 10 + (of_char c - 48)) (unat n) cs in
      if v < 2 ^ 64 then (of_nat v, None) else (maxVal, Some ErrRange))"
  using assms
proof (induction cs arbitrary: n)
  case Nil
  have "unat n < 2 ^ 64" using unsigned_less [of n] by simp
  then show ?case by simp
next
  case (Cons c cs)
  let ?step = "\<lambda>n c. n * 10 + (of_char c - 48 :: nat)"
  let ?d = "of_char c - 48 :: nat"
  from Cons.prems have dig: "isDigit c" and rest: "\<forall>c \<in> set cs. isDigit c" by simp_all
  from dig have d9: "?d < 10" by (auto simp: isDigit_def)
  have dv: "digitVal c = Some ?d" using dig by (rule digitVal_digit)
  have nlt: "unat n < 2 ^ 64" using unsigned_less [of n] by simp
  show ?case
  proof (cases "cutoff \<le> n")
    case True
    then have "1844674407370955162 \<le> unat n"
      by (simp add: word_le_nat_alt cutoff_unat)
    then have "2 ^ 64 \<le> unat n * 10 + ?d" by simp
    also have "\<dots> \<le> foldl ?step (unat n * 10 + ?d) cs" by (rule foldl_dec_ge)
    finally have "\<not> foldl ?step (unat n * 10 + ?d) cs < 2 ^ 64" by simp
    with True dv d9 show ?thesis by (simp add: Let_def)
  next
    case False
    then have small: "unat n \<le> 1844674407370955161"
      by (simp add: word_le_nat_alt cutoff_unat)
    then have u10: "unat (n * 10) = unat n * 10"
      by (simp add: unat_word_ariths)
    show ?thesis
    proof (cases "unat n * 10 + ?d < 2 ^ 64")
      case True
      then have u1: "unat (n * 10 + of_nat ?d) = unat n * 10 + ?d"
        using u10 d9 by (simp add: unat_word_ariths unat_of_nat)
      then have nowrap: "\<not> (n * 10 + of_nat ?d < n * 10)"
        by (simp add: word_less_nat_alt u10)
      have nomax: "\<not> maxVal < n * 10 + of_nat ?d"
        using True by (simp add: word_less_nat_alt u1 maxVal_unat)
      have "parseLoop n (c # cs) = parseLoop (n * 10 + of_nat ?d) cs"
        using dv d9 False nowrap nomax by (simp add: Let_def)
      also have "\<dots> = (let v = foldl ?step (unat (n * 10 + of_nat ?d)) cs in
          if v < 2 ^ 64 then (of_nat v, None) else (maxVal, Some ErrRange))"
        using rest by (rule Cons.IH)
      finally show ?thesis by (simp add: u1)
    next
      case over: False
      then have ge: "2 ^ 64 \<le> unat n * 10 + ?d" by simp
      have "unat (n * 10 + of_nat ?d) = (unat n * 10 + ?d) mod 2 ^ 64"
        using u10 d9 by (simp add: unat_word_ariths unat_of_nat)
      also have "\<dots> = unat n * 10 + ?d - 2 ^ 64"
        using ge small d9 by (simp add: mod_if le_mod_geq)
      finally have "unat (n * 10 + of_nat ?d) < unat (n * 10)"
        using u10 ge small d9 by simp
      then have wrap: "n * 10 + of_nat ?d < n * 10"
        by (simp add: word_less_nat_alt)
      have "unat n * 10 + ?d \<le> foldl ?step (unat n * 10 + ?d) cs" by (rule foldl_dec_ge)
      with ge have "\<not> foldl ?step (unat n * 10 + ?d) cs < 2 ^ 64" by simp
      with dv d9 False wrap show ?thesis by (simp add: Let_def)
    qed
  qed
qed

lemma ParseUint_numeral:
  assumes "isNumeral s"
  shows "ParseUint s =
     (if decimal s < 2 ^ 64 then (of_nat (decimal s), None) else (maxVal, Some ErrRange))"
proof -
  from assms have ne: "s \<noteq> []" and dig: "\<forall>c \<in> set s. isDigit c"
    by (simp_all add: isNumeral_def list_all_iff)
  show ?thesis
    using ne parseLoop_digits [OF dig, of 0]
    by (simp add: ParseUint_def decimal_def Let_def)
qed

text \<open>The value that comes with an error: 0 with a syntax error, the largest value with a range error.\<close>

lemma parseLoop_error:
  "parseLoop n cs = (v, Some e) \<Longrightarrow> (e = ErrSyntax \<and> v = 0) \<or> (e = ErrRange \<and> v = maxVal)"
  by (induction cs arbitrary: n) (auto simp: Let_def split: option.splits if_splits)

lemma ParseUint_error:
  "ParseUint s = (v, Some e) \<Longrightarrow> (e = ErrSyntax \<and> v = 0) \<or> (e = ErrRange \<and> v = maxVal)"
  by (auto simp: ParseUint_def dest: parseLoop_error split: if_splits)

section \<open>Properties of the rounding\<close>

subsection \<open>Rounding to an integer\<close>

lemma rne_of_int: "rne (of_int k) = k"
  by (simp add: rne_def)

lemma rne_ge_int: "of_int k \<le> x \<Longrightarrow> k \<le> rne x"
proof -
  assume "of_int k \<le> x"
  then have "k \<le> \<lfloor>x\<rfloor>" by (simp add: le_floor_iff)
  moreover have "\<lfloor>x\<rfloor> \<le> rne x" by (simp add: rne_def Let_def)
  ultimately show ?thesis by simp
qed

lemma rne_le_int: "x \<le> of_int k \<Longrightarrow> rne x \<le> k"
proof -
  assume le: "x \<le> of_int k"
  show ?thesis
  proof (cases "x = of_int k")
    case True
    then show ?thesis by (simp add: rne_of_int)
  next
    case False
    with le have "x < of_int k" by simp
    then have "\<lfloor>x\<rfloor> < k" by (simp add: floor_less_iff)
    moreover have "rne x \<le> \<lfloor>x\<rfloor> + 1" by (simp add: rne_def Let_def)
    ultimately show ?thesis by simp
  qed
qed

lemma rne_mono: "x \<le> y \<Longrightarrow> rne x \<le> rne y"
proof -
  assume xy: "x \<le> y"
  have fl: "\<lfloor>x\<rfloor> \<le> \<lfloor>y\<rfloor>" using xy by (rule floor_mono)
  show ?thesis
  proof (cases "\<lfloor>x\<rfloor> = \<lfloor>y\<rfloor>")
    case True
    with xy show ?thesis by (auto simp: rne_def Let_def)
  next
    case False
    with fl have "\<lfloor>x\<rfloor> + 1 \<le> \<lfloor>y\<rfloor>" by simp
    moreover have "rne x \<le> \<lfloor>x\<rfloor> + 1" by (simp add: rne_def Let_def)
    moreover have "\<lfloor>y\<rfloor> \<le> rne y" by (simp add: rne_def Let_def)
    ultimately show ?thesis by simp
  qed
qed

subsection \<open>The binary exponent\<close>

lemma pow2_pos: "0 < (2::rat) powi e"
  by (simp add: zero_less_power_int)

lemma ilog2_bounds:
  assumes "0 < q"
  shows "2 powi (ilog2 q) \<le> q \<and> q < 2 powi (ilog2 q + 1)"
proof -
  obtain n d where nd: "quotient_of q = (n, d)" by (cases "quotient_of q")
  then have d: "0 < d" and q: "q = of_int n / of_int d"
    by (auto dest: quotient_of_denom_pos quotient_of_div)
  with assms have n: "0 < n" by (simp add: zero_less_divide_iff)
  define a where "a = nat (bitlen n - 1)"
  define b where "b = nat (bitlen d - 1)"
  have bn: "bitlen n = int a + 1" and na: "2 ^ a \<le> n" and na': "n < 2 ^ (a + 1)"
    using bitlen_bounds [OF n] n by (auto simp: a_def bitlen_alt_def nat_add_distrib)
  have bd: "bitlen d = int b + 1" and db: "2 ^ b \<le> d" and db': "d < 2 ^ (b + 1)"
    using bitlen_bounds [OF d] d by (auto simp: b_def bitlen_alt_def nat_add_distrib)
  have e0: "bitlen n - bitlen d = int a - int b" by (simp add: bn bd)
  have dpos: "0 < (of_int d :: rat)" using d by simp
  have rn: "(2::rat) ^ a \<le> of_int n" "(of_int n :: rat) < 2 ^ (a + 1)"
    using na na' by (metis of_int_le_iff of_int_numeral of_int_power, metis of_int_less_iff of_int_numeral of_int_power)
  have rd: "(2::rat) ^ b \<le> of_int d" "(of_int d :: rat) < 2 ^ (b + 1)"
    using db db' by (metis of_int_le_iff of_int_numeral of_int_power, metis of_int_less_iff of_int_numeral of_int_power)
  have up: "q < 2 powi (int a - int b + 1)"
  proof -
    have "of_int n < (2::rat) ^ (a + 1)" by (rule rn)
    also have "\<dots> = 2 powi (int a - int b + 1) * 2 ^ b"
      by (simp add: power_int_diff power_int_add)
    also have "\<dots> \<le> 2 powi (int a - int b + 1) * of_int d"
      using rd(1) pow2_pos by (simp add: mult_left_mono)
    finally show ?thesis using dpos by (simp add: q pos_divide_less_eq)
  qed
  have lo: "2 powi (int a - int b - 1) < q"
  proof -
    have "2 powi (int a - int b - 1) * of_int d < 2 powi (int a - int b - 1) * (2::rat) ^ (b + 1)"
      using rd(2) pow2_pos by (simp add: mult_strict_left_mono del: power_Suc)
    also have "\<dots> = 2 ^ a"
      by (simp add: power_int_diff power_int_add)
    also have "\<dots> \<le> of_int n" by (rule rn)
    finally show ?thesis using dpos by (simp add: q pos_less_divide_eq)
  qed
  show ?thesis
  proof (cases "2 powi (int a - int b) \<le> q")
    case True
    then have "ilog2 q = int a - int b" by (simp add: ilog2_def nd e0 Let_def)
    with True up show ?thesis by simp
  next
    case False
    then have "ilog2 q = int a - int b - 1" by (simp add: ilog2_def nd e0 Let_def)
    with False lo show ?thesis by simp
  qed
qed

lemma ilog2_unique:
  assumes "0 < q" "2 powi e \<le> q" "q < 2 powi (e + 1)"
  shows "ilog2 q = e"
proof -
  from ilog2_bounds [OF assms(1)]
  have b: "2 powi (ilog2 q) \<le> q" "q < 2 powi (ilog2 q + 1)" by simp_all
  have "(2::rat) powi e < 2 powi (ilog2 q + 1)" using assms(2) b(2) by simp
  then have "e < ilog2 q + 1"
    by (metis linorder_not_less power_int_increasing one_le_numeral)
  moreover have "(2::rat) powi (ilog2 q) < 2 powi (e + 1)" using assms(3) b(1) by simp
  then have "ilog2 q < e + 1"
    by (metis linorder_not_less power_int_increasing one_le_numeral)
  ultimately show ?thesis by simp
qed

lemma ilog2_mono:
  assumes "0 < q" "q \<le> r"
  shows "ilog2 q \<le> ilog2 r"
proof -
  have r: "0 < r" using assms by simp
  have "(2::rat) powi (ilog2 q) \<le> q" using ilog2_bounds [OF assms(1)] by simp
  also have "\<dots> \<le> r" by (rule assms)
  also have "\<dots> < 2 powi (ilog2 r + 1)" using ilog2_bounds [OF r] by simp
  finally have "ilog2 q < ilog2 r + 1"
    by (metis linorder_not_less power_int_increasing one_le_numeral)
  then show ?thesis by simp
qed

subsection \<open>Rounding to 53 bits\<close>

lemma significand_bounds:
  assumes "0 < q"
  shows "2 ^ 52 \<le> rne (q / 2 powi (ilog2 q - 52)) \<and> rne (q / 2 powi (ilog2 q - 52)) \<le> 2 ^ 53"
proof -
  let ?s = "(2::rat) powi (ilog2 q - 52)"
  have s: "0 < ?s" by (rule pow2_pos)
  have e: "(2::rat) powi (ilog2 q) = 2 ^ 52 * ?s" "(2::rat) powi (ilog2 q + 1) = 2 ^ 53 * ?s"
    by (simp_all add: power_int_diff power_int_add)
  from ilog2_bounds [OF assms] have "2 ^ 52 * ?s \<le> q" "q < 2 ^ 53 * ?s"
    by (simp_all only: e)
  then have "of_int (2 ^ 52) \<le> q / ?s" "q / ?s \<le> of_int (2 ^ 53)"
    using s by (simp_all add: pos_le_divide_eq pos_divide_le_eq)
  then show ?thesis by (blast intro: rne_ge_int rne_le_int)
qed

lemma round_f64_bounds:
  assumes "0 < q"
  shows "2 powi (ilog2 q) \<le> round_f64 q \<and> round_f64 q \<le> 2 powi (ilog2 q + 1)"
proof -
  let ?s = "(2::rat) powi (ilog2 q - 52)"
  let ?m = "rne (q / ?s)"
  have s: "0 < ?s" by (rule pow2_pos)
  have e: "(2::rat) powi (ilog2 q) = 2 ^ 52 * ?s" "(2::rat) powi (ilog2 q + 1) = 2 ^ 53 * ?s"
    by (simp_all add: power_int_diff power_int_add)
  have r: "round_f64 q = of_int ?m * ?s" using assms by (simp add: round_f64_def Let_def)
  from significand_bounds [OF assms] have "(of_int (2 ^ 52) :: rat) \<le> of_int ?m" "(of_int ?m :: rat) \<le> of_int (2 ^ 53)"
    by (simp_all only: of_int_le_iff)
  then have "2 ^ 52 * ?s \<le> of_int ?m * ?s" "of_int ?m * ?s \<le> 2 ^ 53 * ?s"
    using s by (simp_all add: mult_right_mono)
  then show ?thesis by (simp only: r e)
qed

lemma round_f64_pos:
  assumes "0 < q"
  shows "0 < round_f64 q"
proof -
  have "(0::rat) < 2 powi (ilog2 q)" by (rule pow2_pos)
  also have "\<dots> \<le> round_f64 q" using round_f64_bounds [OF assms] by simp
  finally show ?thesis .
qed

lemma round_f64_nonneg: "0 \<le> round_f64 q"
  using round_f64_pos [of q] by (cases "0 < q") (simp_all add: round_f64_def)

lemma round_f64_mono:
  assumes "q \<le> r"
  shows "round_f64 q \<le> round_f64 r"
proof (cases "0 < q")
  case False
  then have "round_f64 q = 0" by (simp add: round_f64_def)
  then show ?thesis by (simp add: round_f64_nonneg)
next
  case q: True
  with assms have r: "0 < r" by simp
  have le: "ilog2 q \<le> ilog2 r" using q assms by (rule ilog2_mono)
  show ?thesis
  proof (cases "ilog2 q = ilog2 r")
    case True
    let ?s = "(2::rat) powi (ilog2 r - 52)"
    have s: "0 < ?s" by (rule pow2_pos)
    have "q / ?s \<le> r / ?s" using assms s by (simp add: divide_right_mono)
    then have "(of_int (rne (q / ?s)) :: rat) \<le> of_int (rne (r / ?s))"
      by (simp only: of_int_le_iff rne_mono)
    then have "of_int (rne (q / ?s)) * ?s \<le> of_int (rne (r / ?s)) * ?s"
      using s by (simp add: mult_right_mono)
    then show ?thesis using q r True by (simp add: round_f64_def Let_def)
  next
    case False
    with le have "ilog2 q + 1 \<le> ilog2 r" by simp
    then have "(2::rat) powi (ilog2 q + 1) \<le> 2 powi (ilog2 r)"
      by (rule power_int_increasing) simp
    moreover have "round_f64 q \<le> 2 powi (ilog2 q + 1)" using round_f64_bounds [OF q] by simp
    moreover have "2 powi (ilog2 r) \<le> round_f64 r" using round_f64_bounds [OF r] by simp
    ultimately show ?thesis by linarith
  qed
qed

lemma round_f64_double: "round_f64 (2 * q) = 2 * round_f64 q"
proof (cases "0 < q")
  case False
  then show ?thesis by (simp add: round_f64_def)
next
  case True
  from ilog2_bounds [OF True]
  have "2 powi (ilog2 q + 1) \<le> 2 * q" "2 * q < 2 powi (ilog2 q + 1 + 1)"
    by (simp_all add: power_int_add)
  then have e: "ilog2 (2 * q) = ilog2 q + 1"
    using True by (intro ilog2_unique) simp_all
  have "(2::rat) powi (ilog2 q - 52 + 1) = 2 powi (ilog2 q - 52) * 2"
    by (rule power_int_add_1) simp
  then have s: "(2::rat) powi (ilog2 q - 51) = 2 * 2 powi (ilog2 q - 52)"
    by (simp add: mult.commute)
  show ?thesis using True by (simp add: round_f64_def Let_def e s)
qed

text \<open>An integer below \<open>2\<^sup>5\<^sup>3\<close> is a \<open>float64\<close>: its conversion is exact.\<close>

lemma round_f64_int:
  assumes "0 \<le> k" and "k < 2 ^ 53"
  shows "round_f64 (of_int k) = of_int k"
proof (cases "k = 0")
  case True
  then show ?thesis by (simp add: round_f64_def)
next
  case False
  with assms have q: "(0::rat) < of_int k" by simp
  let ?e = "ilog2 (of_int k)"
  have "(2::rat) powi ?e \<le> of_int k" using ilog2_bounds [OF q] by simp
  also have "(of_int k :: rat) < of_int (2 ^ 53)" using assms(2) by (simp only: of_int_less_iff)
  finally have "(2::rat) powi ?e < 2 powi 53" by simp
  then have "?e < 53"
    by (metis linorder_not_less power_int_increasing one_le_numeral)
  then have "0 \<le> 52 - ?e" by simp
  then obtain j where "52 - ?e = int j" by (rule nonneg_int_cases)
  then have j: "?e - 52 = - int j" by simp
  have s: "(2::rat) powi (?e - 52) = 1 / 2 ^ j"
    by (simp only: j power_int_minus_divide power_int_of_nat)
  have "of_int k / (2::rat) powi (?e - 52) = of_int (k * 2 ^ j)"
    by (simp add: s)
  then have "rne (of_int k / (2::rat) powi (?e - 52)) = k * 2 ^ j"
    by (simp only: rne_of_int)
  then show ?thesis using q by (simp add: round_f64_def Let_def s)
qed

lemma float64_of_exact: "uint w < 2 ^ 53 \<Longrightarrow> float64_of w = of_int (uint w)"
  unfolding float64_of_def by (rule round_f64_int) simp_all

section \<open>Wrap-around and signed division\<close>

lemma uint64_bounds:
  fixes w :: uint64
  shows "0 \<le> uint w" and "uint w < 2 ^ 64"
  using uint_bounded [of w] by simp_all

lemma sint_cases64:
  fixes w :: uint64
  shows "sint w = (if uint w < 2 ^ 63 then uint w else uint w - 2 ^ 64)"
proof -
  have a: "sint w = (uint w + 2 ^ 63) mod 2 ^ 64 - 2 ^ 63"
    by (simp add: sint_uint signed_take_bit_eq_take_bit_shift take_bit_eq_mod)
  show ?thesis
  proof (cases "uint w < 2 ^ 63")
    case True
    then have "(uint w + 2 ^ 63) mod 2 ^ 64 = uint w + 2 ^ 63"
      using uint64_bounds [of w] by (intro mod_pos_pos_trivial) simp_all
    with True a show ?thesis by simp
  next
    case False
    have "uint w + 2 ^ 63 = uint w - 2 ^ 63 + 2 ^ 64"
      by simp
    then have "(uint w + 2 ^ 63) mod 2 ^ 64 = (uint w - 2 ^ 63 + 2 ^ 64) mod 2 ^ 64"
      by (rule arg_cong)
    also have "\<dots> = (uint w - 2 ^ 63) mod 2 ^ 64"
      by (rule mod_add_self2)
    also have "\<dots> = uint w - 2 ^ 63"
      using False uint64_bounds [of w] by (intro mod_pos_pos_trivial) simp_all
    finally show ?thesis using False a by simp
  qed
qed

lemma free_bytes_wrap:
  fixes t u :: uint64
  assumes "t < u"
  shows "uint (t - u) = 2 ^ 64 - (uint u - uint t)"
  using assms by (simp add: uint_sub_if' word_less_def)

lemma free_bytes_no_wrap:
  fixes t u :: uint64
  assumes "u \<le> t"
  shows "uint (t - u) = uint t - uint u"
  using assms by (simp add: uint_sub_if' word_le_def)

lemma sdiv_nonneg: "0 \<le> (k::int) \<Longrightarrow> 0 < l \<Longrightarrow> k sdiv l = k div l"
  by (auto simp: signed_divide_int_def sgn_if)

lemma sdiv_neg: "(k::int) < 0 \<Longrightarrow> 0 < l \<Longrightarrow> k sdiv l = - ((- k) div l)"
  by (auto simp: signed_divide_int_def sgn_if)

lemma sdiv_one: "(1::int) sdiv 1048576 = 0"
  by (simp add: signed_divide_int_def)

section \<open>The percentages\<close>

lemma round_consts:
  "round_f64 (1 / 2) = 1 / 2" "round_f64 50 = 50" "round_f64 1 = 1" "round_f64 100 = 100"
  by code_simp+

lemma float64_of_pos: "w \<noteq> 0 \<Longrightarrow> 0 < float64_of w"
proof -
  assume "w \<noteq> 0"
  then have "uint w \<noteq> 0" by (simp add: uint_0_iff)
  moreover have "0 \<le> uint w" by simp
  ultimately have "0 < uint w" by linarith
  then have "(0::rat) < of_int (uint w)" by (simp only: of_int_0_less_iff)
  then show ?thesis unfolding float64_of_def by (rule round_f64_pos)
qed

text \<open>
  Rounding is monotone, so a percentage can be bounded from the integers it is computed
  from: at most 50 when the total is at least twice the used amount, at least 100 when the
  used amount is not below the total.
\<close>

lemma pct_le_50:
  assumes "2 * uint u \<le> uint t" and "t \<noteq> 0"
  shows "fmul (fdiv (float64_of u) (float64_of t)) 100 \<le> 50"
proof -
  have tpos: "0 < float64_of t" using assms(2) by (rule float64_of_pos)
  have "(2 * of_int (uint u) :: rat) \<le> of_int (uint t)"
    using assms(1) by (metis of_int_le_iff of_int_mult of_int_numeral)
  then have "round_f64 (2 * of_int (uint u)) \<le> round_f64 (of_int (uint t))"
    by (rule round_f64_mono)
  then have "2 * float64_of u \<le> float64_of t"
    by (simp only: float64_of_def round_f64_double)
  then have "float64_of u / float64_of t \<le> 1 / 2"
    using tpos by (simp add: pos_divide_le_eq)
  then have "fdiv (float64_of u) (float64_of t) \<le> round_f64 (1 / 2)"
    unfolding fdiv_def by (rule round_f64_mono)
  then have "fdiv (float64_of u) (float64_of t) * 100 \<le> 50"
    by (simp add: round_consts)
  then have "fmul (fdiv (float64_of u) (float64_of t)) 100 \<le> round_f64 50"
    unfolding fmul_def by (rule round_f64_mono)
  then show ?thesis by (simp add: round_consts)
qed

lemma pct_ge_100:
  assumes "uint t \<le> uint u" and "t \<noteq> 0"
  shows "100 \<le> fmul (fdiv (float64_of u) (float64_of t)) 100"
proof -
  have tpos: "0 < float64_of t" using assms(2) by (rule float64_of_pos)
  have "(of_int (uint t) :: rat) \<le> of_int (uint u)"
    using assms(1) by (simp only: of_int_le_iff)
  then have "float64_of t \<le> float64_of u"
    unfolding float64_of_def by (rule round_f64_mono)
  then have "1 \<le> float64_of u / float64_of t"
    using tpos by (simp add: pos_le_divide_eq)
  then have "round_f64 1 \<le> fdiv (float64_of u) (float64_of t)"
    unfolding fdiv_def by (rule round_f64_mono)
  then have "100 \<le> fdiv (float64_of u) (float64_of t) * 100"
    by (simp add: round_consts)
  then have "round_f64 100 \<le> fmul (fdiv (float64_of u) (float64_of t)) 100"
    unfolding fmul_def by (rule round_f64_mono)
  then show ?thesis by (simp add: round_consts)
qed

lemma over_capacity_fires:
  fixes t u :: uint64
  assumes "t < u" and "t \<noteq> 0"
  shows "90 < fmul (fdiv (float64_of u) (float64_of t)) 100"
proof -
  have "uint t \<le> uint u" using assms(1) by (simp add: word_less_def)
  then have "100 \<le> fmul (fdiv (float64_of u) (float64_of t)) 100"
    using assms(2) by (rule pct_ge_100)
  then show ?thesis by simp
qed

lemma free_bytes_below_2_63:
  fixes t u :: uint64
  assumes "u \<le> t" and "t \<noteq> 0" and "90 < fmul (fdiv (float64_of u) (float64_of t)) 100"
  shows "uint t - uint u < 2 ^ 63"
proof -
  have "\<not> 2 * uint u \<le> uint t"
  proof
    assume "2 * uint u \<le> uint t"
    then have "fmul (fdiv (float64_of u) (float64_of t)) 100 \<le> 50"
      using assms(2) by (rule pct_le_50)
    with assms(3) show False by simp
  qed
  moreover have "uint t < 2 ^ 64" by (rule uint64_bounds)
  ultimately show ?thesis by simp
qed

text \<open>
  The range of the values: a converted integer is 0 or lies between 1 and \<open>2\<^sup>6\<^sup>4\<close>, a
  quotient is 0 or lies between \<open>2\<^sup>-\<^sup>6\<^sup>4\<close> and \<open>2\<^sup>6\<^sup>4\<close>, and a percentage is at most
  100 times \<open>2\<^sup>6\<^sup>4\<close>. All of this is inside the normal range of \<open>float64\<close>, where
  rounding with an unbounded exponent is the rounding of IEEE 754.
\<close>

lemma round_range_consts:
  "round_f64 18446744073709551615 = 18446744073709551616"
  "round_f64 (1 / 18446744073709551616) = 1 / 18446744073709551616"
  "round_f64 18446744073709551616 = 18446744073709551616"
  "round_f64 1844674407370955161600 = 1844674407370955161600"
  "round_f64 147573952589676412928 = 147573952589676412928"
  "round_f64 (147573952589676412928 / 1000000) \<le> 281474976710656"
  "1 / 131072 \<le> round_f64 (8 / 1000000)"
  "round_f64 8 = 8"
  by code_simp+

lemma float64_of_range:
  shows "float64_of w \<le> 2 ^ 64" and "w \<noteq> 0 \<Longrightarrow> 1 \<le> float64_of w"
proof -
  have "uint w \<le> 18446744073709551615" using uint64_bounds(2) [of w] by simp
  then have "(of_int (uint w) :: rat) \<le> of_int 18446744073709551615"
    by (simp only: of_int_le_iff)
  then have "round_f64 (of_int (uint w)) \<le> round_f64 (of_int 18446744073709551615)"
    by (rule round_f64_mono)
  then show "float64_of w \<le> 2 ^ 64"
    by (simp add: float64_of_def round_range_consts)
  assume "w \<noteq> 0"
  then have "uint w \<noteq> 0" by (simp add: uint_0_iff)
  moreover have "0 \<le> uint w" by simp
  ultimately have "1 \<le> uint w" by linarith
  then have "(of_int 1 :: rat) \<le> of_int (uint w)" by (simp only: of_int_le_iff)
  then have "round_f64 (of_int 1) \<le> round_f64 (of_int (uint w))"
    by (rule round_f64_mono)
  then show "1 \<le> float64_of w"
    by (simp add: float64_of_def round_consts)
qed

lemma quotient_range:
  assumes "t \<noteq> 0"
  shows "fdiv (float64_of u) (float64_of t) \<le> 2 ^ 64"
    and "u \<noteq> 0 \<Longrightarrow> 1 / 2 ^ 64 \<le> fdiv (float64_of u) (float64_of t)"
proof -
  have t: "1 \<le> float64_of t" "float64_of t \<le> 2 ^ 64"
    using assms by (rule float64_of_range(2)) (rule float64_of_range(1))
  have u: "0 \<le> float64_of u" "float64_of u \<le> 2 ^ 64"
    unfolding float64_of_def by (rule round_f64_nonneg) (rule float64_of_range(1) [unfolded float64_of_def])
  have "float64_of u / float64_of t \<le> float64_of u / 1"
    using t(1) u(1) by (intro divide_left_mono) simp_all
  then have "float64_of u / float64_of t \<le> 2 ^ 64" using u(2) by simp
  then have "fdiv (float64_of u) (float64_of t) \<le> round_f64 (2 ^ 64)"
    unfolding fdiv_def by (rule round_f64_mono)
  then show "fdiv (float64_of u) (float64_of t) \<le> 2 ^ 64"
    by (simp add: round_range_consts)
  assume "u \<noteq> 0"
  then have u1: "1 \<le> float64_of u" by (rule float64_of_range(2))
  have "1 / 2 ^ 64 \<le> 1 / float64_of t"
    using t by (intro divide_left_mono) simp_all
  also have "\<dots> \<le> float64_of u / float64_of t"
    using u1 t(1) by (intro divide_right_mono) simp_all
  finally have "round_f64 (1 / 2 ^ 64) \<le> fdiv (float64_of u) (float64_of t)"
    unfolding fdiv_def by (rule round_f64_mono)
  then show "1 / 2 ^ 64 \<le> fdiv (float64_of u) (float64_of t)"
    by (simp add: round_range_consts)
qed

lemma percentage_range:
  assumes "t \<noteq> 0"
  shows "0 \<le> fmul (fdiv (float64_of u) (float64_of t)) 100"
    and "fmul (fdiv (float64_of u) (float64_of t)) 100 \<le> 2 ^ 64 * 100"
proof -
  show "0 \<le> fmul (fdiv (float64_of u) (float64_of t)) 100"
    by (simp add: fmul_def round_f64_nonneg)
  have "fdiv (float64_of u) (float64_of t) * 100 \<le> 1844674407370955161600"
    using quotient_range(1) [OF assms, of u] by simp
  then have "fmul (fdiv (float64_of u) (float64_of t)) 100 \<le> round_f64 1844674407370955161600"
    unfolding fmul_def by (rule round_f64_mono)
  then show "fmul (fdiv (float64_of u) (float64_of t)) 100 \<le> 2 ^ 64 * 100"
    by (simp add: round_range_consts)
qed

text \<open>
  Below \<open>2\<^sup>5\<^sup>3\<close> the conversions are exact, and a ratio of exactly four fifths or nine
  tenths gives a computed percentage of exactly 80 or 90.
\<close>

lemma round_at_threshold:
  "fmul (round_f64 (4 / 5)) 100 = 80"
  "fmul (round_f64 (9 / 10)) 100 = 90"
  by code_simp+

lemma pct_exact_ratio:
  fixes u t :: uint64
  assumes "uint u < 2 ^ 53" and "uint t < 2 ^ 53" and "t \<noteq> 0"
  shows "5 * uint u = 4 * uint t \<Longrightarrow> fmul (fdiv (float64_of u) (float64_of t)) 100 = 80"
    and "10 * uint u = 9 * uint t \<Longrightarrow> fmul (fdiv (float64_of u) (float64_of t)) 100 = 90"
proof -
  have t: "(of_int (uint t) :: rat) \<noteq> 0"
    using assms(3) by (simp only: of_int_eq_0_iff uint_0_iff not_False_eq_True)
  have f: "fdiv (float64_of u) (float64_of t) = round_f64 (of_int (uint u) / of_int (uint t))"
    using assms(1,2) by (simp only: fdiv_def float64_of_exact)
  {
    assume "5 * uint u = 4 * uint t"
    then have "(of_int (5 * uint u) :: rat) = of_int (4 * uint t)" by (simp only:)
    then have "(of_int (uint u) :: rat) / of_int (uint t) = 4 / 5"
      using t by (simp add: field_simps)
    then show "fmul (fdiv (float64_of u) (float64_of t)) 100 = 80"
      by (simp only: f round_at_threshold)
  }
  {
    assume "10 * uint u = 9 * uint t"
    then have "(of_int (10 * uint u) :: rat) = of_int (9 * uint t)" by (simp only:)
    then have "(of_int (uint u) :: rat) / of_int (uint t) = 9 / 10"
      using t by (simp add: field_simps)
    then show "fmul (fdiv (float64_of u) (float64_of t)) 100 = 90"
      by (simp only: f round_at_threshold)
  }
qed

section \<open>The checks and the cycle\<close>

lemmas lines_defs = loadLines_def memLines_def diskLines_def netLines_def

lemmas pct_defs = memPct_def diskPct_def netPct_def

lemma thresholds:
  "(of_nat loadAverageThreshold :: uint64) = 30"
  "(of_nat memoryUsageThreshold :: rat) = 80"
  "(of_nat freeDiscSpaceThreshold :: rat) = 90"
  "(of_nat networkBandwidthThreshold :: rat) = 90"
  by (simp_all add: loadAverageThreshold_def memoryUsageThreshold_def
      freeDiscSpaceThreshold_def networkBandwidthThreshold_def)

lemma checks_unfold:
  "checks m out =
     (if memTotal m = 0 then (Some MemTotalZero, out @ loadLines m)
      else if diskTotal m = 0 then (Some DiskTotalZero, out @ loadLines m @ memLines m)
      else if netCap m = 0
        then (Some NetCapZero, out @ loadLines m @ memLines m @ diskLines m)
      else (None, out @ loadLines m @ memLines m @ diskLines m @ netLines m))"
  by (simp add: checks_def loadLines_def memLines_def diskLines_def netLines_def Let_def)

lemma pollOnce_usable:
  "usable body \<Longrightarrow> pollOnce (Response 200 (Some body)) out = checks (snapshot body) out"
  by (simp add: pollOnce_def pollBody_def usable_def snapshot_def Let_def)

lemma freeMB_no_wrap:
  assumes "diskUsed m \<le> diskTotal m" and "diskTotal m \<noteq> 0" and "90 < diskPct m"
  shows "freeMB m = (uint (diskTotal m) - uint (diskUsed m)) div 1048576"
proof -
  have lt: "uint (diskTotal m) - uint (diskUsed m) < 2 ^ 63"
    using assms unfolding diskPct_def by (rule free_bytes_below_2_63)
  have d: "uint (diskTotal m - diskUsed m) = uint (diskTotal m) - uint (diskUsed m)"
    using assms(1) by (rule free_bytes_no_wrap)
  have nn: "0 \<le> uint (diskTotal m) - uint (diskUsed m)"
    using assms(1) by (simp add: word_le_def)
  have "sint (diskTotal m - diskUsed m) = uint (diskTotal m) - uint (diskUsed m)"
    using lt d by (simp add: sint_cases64)
  then show ?thesis using nn by (simp add: freeMB_def sdiv_nonneg)
qed

lemma freeMB_wrap:
  assumes "diskTotal m < diskUsed m"
  shows "uint (diskTotal m - diskUsed m) = 2 ^ 64 - (uint (diskUsed m) - uint (diskTotal m))"
    and "freeMB m < 0 \<longleftrightarrow>
           2 ^ 20 \<le> uint (diskUsed m) - uint (diskTotal m) \<and>
           uint (diskUsed m) - uint (diskTotal m) \<le> 2 ^ 63"
proof -
  let ?D = "uint (diskUsed m) - uint (diskTotal m)"
  show w: "uint (diskTotal m - diskUsed m) = 2 ^ 64 - ?D"
    using assms by (rule free_bytes_wrap)
  have lt: "uint (diskTotal m) < uint (diskUsed m)"
    using assms by (simp add: word_less_def)
  have "0 \<le> uint (diskTotal m)" and "uint (diskUsed m) < 2 ^ 64"
    by (rule uint64_bounds)+
  with lt have D: "0 < ?D" "?D < 2 ^ 64" by linarith+
  show "freeMB m < 0 \<longleftrightarrow> 2 ^ 20 \<le> ?D \<and> ?D \<le> 2 ^ 63"
  proof (cases "?D \<le> 2 ^ 63")
    case True
    then have s: "sint (diskTotal m - diskUsed m) = - ?D"
      using D by (simp add: sint_cases64 w)
    have "freeMB m = - (?D div 1048576)"
      using D by (simp add: freeMB_def s sdiv_neg)
    moreover have "0 < ?D div 1048576 \<longleftrightarrow> 1048576 \<le> ?D"
      using D by (simp add: pos_imp_zdiv_pos_iff)
    ultimately show ?thesis using True by simp
  next
    case False
    then have s: "sint (diskTotal m - diskUsed m) = 2 ^ 64 - ?D"
      using D by (simp add: sint_cases64 w)
    have "freeMB m = (2 ^ 64 - ?D) div 1048576"
      using D by (simp add: freeMB_def s sdiv_nonneg)
    moreover have "0 \<le> (2 ^ 64 - ?D) div 1048576"
      using D by (simp add: pos_imp_zdiv_nonneg_iff)
    ultimately show ?thesis using False by simp
  qed
qed

lemma freeMbit_pos:
  assumes "netCap m \<noteq> netUsed m"
  shows "0 < freeMbit m"
proof -
  have "netCap m - netUsed m \<noteq> 0" using assms by simp
  then have "0 < float64_of (netCap m - netUsed m)" by (rule float64_of_pos)
  then have "0 < fmul (float64_of (netCap m - netUsed m)) 8"
    unfolding fmul_def by (intro round_f64_pos) simp
  then show ?thesis
    unfolding freeMbit_def fdiv_def by (intro round_f64_pos) simp
qed

text \<open>The network figure is 0 or lies between \<open>2\<^sup>-\<^sup>1\<^sup>7\<close> and \<open>2\<^sup>4\<^sup>8\<close>.\<close>

lemma freeMbit_range:
  assumes "netCap m \<noteq> netUsed m"
  shows "1 / 2 ^ 17 \<le> freeMbit m" and "freeMbit m \<le> 2 ^ 48"
proof -
  let ?d = "float64_of (netCap m - netUsed m)"
  have "netCap m - netUsed m \<noteq> 0" using assms by simp
  then have d: "1 \<le> ?d" "?d \<le> 2 ^ 64"
    by (rule float64_of_range(2)) (rule float64_of_range(1))
  have "round_f64 8 \<le> fmul ?d 8"
    unfolding fmul_def using d(1) by (intro round_f64_mono) simp
  then have lo: "8 \<le> fmul ?d 8" by (simp add: round_range_consts)
  have "fmul ?d 8 \<le> round_f64 147573952589676412928"
    unfolding fmul_def using d(2) by (intro round_f64_mono) simp
  then have hi: "fmul ?d 8 \<le> 147573952589676412928" by (simp add: round_range_consts)
  have "round_f64 (8 / 1000000) \<le> freeMbit m"
    unfolding freeMbit_def fdiv_def using lo by (intro round_f64_mono divide_right_mono) simp_all
  then show "1 / 2 ^ 17 \<le> freeMbit m"
    using round_range_consts(7) by simp
  have "freeMbit m \<le> round_f64 (147573952589676412928 / 1000000)"
    unfolding freeMbit_def fdiv_def using hi by (intro round_f64_mono divide_right_mono) simp_all
  then show "freeMbit m \<le> 2 ^ 48"
    using round_range_consts(6) by simp
qed

section \<open>Values on concrete lines\<close>

lemma ParseUint_letter: "ParseUint [CHR ''a''] = (0, Some ErrSyntax)"
  "ParseUint [CHR ''b''] = (0, Some ErrSyntax)"
  "ParseUint [CHR ''c''] = (0, Some ErrSyntax)"
  "ParseUint [CHR ''d''] = (0, Some ErrSyntax)"
  by (simp_all add: ParseUint_def digitVal_def lower_def)

lemma ParseUint_values:
  "ParseUint ''0'' = (0, None)"
  "ParseUint ''5'' = (5, None)"
  "ParseUint ''10'' = (10, None)"
  "ParseUint ''30'' = (30, None)"
  "ParseUint ''31'' = (31, None)"
  "ParseUint ''50'' = (50, None)"
  "ParseUint ''100'' = (100, None)"
  "ParseUint ''500'' = (500, None)"
  "ParseUint ''800'' = (800, None)"
  "ParseUint ''900'' = (900, None)"
  "ParseUint ''950'' = (950, None)"
  "ParseUint ''1000'' = (1000, None)"
  "ParseUint ''1'' = (1, None)"
  "ParseUint ''1001'' = (1001, None)"
  "ParseUint ''2000'' = (2000, None)"
  "ParseUint ''3000000'' = (3000000, None)"
  "ParseUint ''18446744073709551615'' = (18446744073709551615, None)"
  by (simp_all add: ParseUint_numeral isNumeral_def isDigit_def decimal_def)

lemma ParseUint_range:
  "ParseUint ''18446744073709551616'' = (18446744073709551615, Some ErrRange)"
  "ParseUint ''99999999999999999999'' = (18446744073709551615, Some ErrRange)"
  by (simp_all add: ParseUint_numeral isNumeral_def isDigit_def decimal_def maxVal_def)

lemma float64_of_values:
  "float64_of 0 = 0"
  "float64_of 1 = 1"
  "float64_of 50 = 50"
  "float64_of 100 = 100"
  "float64_of 500 = 500"
  "float64_of 800 = 800"
  "float64_of 900 = 900"
  "float64_of 950 = 950"
  "float64_of 1000 = 1000"
  "float64_of 1001 = 1001"
  "float64_of 2000 = 2000"
  "float64_of 3000000 = 3000000"
  by (simp_all add: float64_of_exact)

lemma float64_of_2: "float64_of 2 = 2"
  by (simp add: float64_of_exact)

lemma round_f64_max: "round_f64 18446744073709551615 = 18446744073709551616"
  by code_simp

lemma float64_of_max: "float64_of 18446744073709551615 = 18446744073709551616"
  by (simp add: float64_of_def round_f64_max)

lemma float64_of_wrapped_tiny: "float64_of (- 18446744073709551614) = 2"
proof -
  have "(- 18446744073709551614 :: uint64) = 2" by simp
  then show ?thesis by (simp only: float64_of_2)
qed

lemma pct_values:
  "fmul (fdiv 0 1000) 100 = 0"
  "fmul (fdiv 50 1000) 100 = 5"
  "fmul (fdiv 100 1000) 100 = 10"
  "fmul (fdiv 500 1000) 100 = 50"
  "fmul (fdiv 800 1000) 100 = 80"
  "fmul (fdiv 900 1000) 100 = 90"
  "fmul (fdiv 950 1000) 100 = 95"
  "fmul (fdiv 2000 1000) 100 = 200"
  "fmul (fdiv 3000000 1000) 100 = 300000"
  by code_simp+

lemma pct_tiny:
  "90 < fmul (fdiv 1001 1000) 100"
  "90 < fmul (fdiv 18446744073709551616 1) 100"
  "fdiv (fmul 2 8) 1000000 = 4722366482869645 / 295147905179352825856"
  by code_simp+

lemma parts_A:
  "splitCSV (TrimSpace ''10,1000,500,1000,900,1000,500'') =
     [''10'', ''1000'', ''500'', ''1000'', ''900'', ''1000'', ''500'']"
  by code_simp

lemma snapshot_A:
  "snapshot ''10,1000,500,1000,900,1000,500'' =
     \<lparr>loadAvg = 10, memTotal = 1000, memUsed = 500, diskTotal = 1000, diskUsed = 900,
      netCap = 1000, netUsed = 500, errNum = 0\<rparr>"
  by (simp add: snapshot_def parts_A parseFields_def ParseUint_values countErr_def)

lemma usable_A: "usable ''10,1000,500,1000,900,1000,500''"
  by (simp add: usable_def parts_A snapshot_A)

lemma cycle_A:
  "pollOnce (Response 200 (Some ''10,1000,500,1000,900,1000,500'')) [] = (None, [])"
  by (simp add: pollOnce_usable usable_A snapshot_A checks_unfold lines_defs pct_defs
      thresholds float64_of_values pct_values)

lemma diskPct_A: "diskPct (snapshot ''10,1000,500,1000,900,1000,500'') = 90"
  by (simp add: snapshot_A diskPct_def float64_of_values pct_values)

lemma parts_T:
  "splitCSV (TrimSpace ''30,1000,800,1000,900,1000,900'') =
     [''30'', ''1000'', ''800'', ''1000'', ''900'', ''1000'', ''900'']"
  by code_simp

lemma snapshot_T:
  "snapshot ''30,1000,800,1000,900,1000,900'' =
     \<lparr>loadAvg = 30, memTotal = 1000, memUsed = 800, diskTotal = 1000, diskUsed = 900,
      netCap = 1000, netUsed = 900, errNum = 0\<rparr>"
  by (simp add: snapshot_def parts_T parseFields_def ParseUint_values countErr_def)

lemma usable_T: "usable ''30,1000,800,1000,900,1000,900''"
  by (simp add: usable_def parts_T snapshot_T)

lemma parts_C:
  "splitCSV (TrimSpace ''5,1000,100,1000,950,1000,50'') =
     [''5'', ''1000'', ''100'', ''1000'', ''950'', ''1000'', ''50'']"
  by code_simp

lemma snapshot_C:
  "snapshot ''5,1000,100,1000,950,1000,50'' =
     \<lparr>loadAvg = 5, memTotal = 1000, memUsed = 100, diskTotal = 1000, diskUsed = 950,
      netCap = 1000, netUsed = 50, errNum = 0\<rparr>"
  by (simp add: snapshot_def parts_C parseFields_def ParseUint_values countErr_def)

lemma usable_C: "usable ''5,1000,100,1000,950,1000,50''"
  by (simp add: usable_def parts_C snapshot_C)

lemma cycle_C:
  "pollOnce (Response 200 (Some ''5,1000,100,1000,950,1000,50'')) [] = (None, [DiskLine 0])"
  by (simp add: pollOnce_usable usable_C snapshot_C checks_unfold lines_defs pct_defs
      thresholds float64_of_values pct_values freeMB_def)

lemma parts_D:
  "splitCSV (TrimSpace ''5,0,0,1000,100,1000,50'') =
     [''5'', ''0'', ''0'', ''1000'', ''100'', ''1000'', ''50'']"
  by code_simp

lemma snapshot_D:
  "snapshot ''5,0,0,1000,100,1000,50'' =
     \<lparr>loadAvg = 5, memTotal = 0, memUsed = 0, diskTotal = 1000, diskUsed = 100,
      netCap = 1000, netUsed = 50, errNum = 0\<rparr>"
  by (simp add: snapshot_def parts_D parseFields_def ParseUint_values countErr_def)

lemma parts_E:
  "splitCSV (TrimSpace ''a,b,c,1000,100,1000,50'') =
     [''a'', ''b'', ''c'', ''1000'', ''100'', ''1000'', ''50'']"
  by code_simp

lemma snapshot_E:
  "snapshot ''a,b,c,1000,100,1000,50'' =
     \<lparr>loadAvg = 0, memTotal = 0, memUsed = 0, diskTotal = 1000, diskUsed = 100,
      netCap = 1000, netUsed = 50, errNum = 3\<rparr>"
  by (simp add: snapshot_def parts_E parseFields_def ParseUint_letter ParseUint_values countErr_def)

lemma parts_F:
  "splitCSV (TrimSpace ''5,1000,100,,100,1000,50,7'') =
     [''5'', ''1000'', ''100'', [], ''100'', ''1000'', ''50'', ''7'']"
  by code_simp

lemma parts_4bad:
  "splitCSV (TrimSpace ''a,b,c,d,100,1000,50'') =
     [''a'', ''b'', ''c'', ''d'', ''100'', ''1000'', ''50'']"
  by code_simp

lemma snapshot_4bad:
  "snapshot ''a,b,c,d,100,1000,50'' =
     \<lparr>loadAvg = 0, memTotal = 0, memUsed = 0, diskTotal = 0, diskUsed = 100,
      netCap = 1000, netUsed = 50, errNum = 4\<rparr>"
  by (simp add: snapshot_def parts_4bad parseFields_def ParseUint_letter ParseUint_values countErr_def)

lemma parts_disk0:
  "splitCSV (TrimSpace ''5,1000,100,0,0,1000,50'') =
     [''5'', ''1000'', ''100'', ''0'', ''0'', ''1000'', ''50'']"
  by code_simp

lemma snapshot_disk0:
  "snapshot ''5,1000,100,0,0,1000,50'' =
     \<lparr>loadAvg = 5, memTotal = 1000, memUsed = 100, diskTotal = 0, diskUsed = 0,
      netCap = 1000, netUsed = 50, errNum = 0\<rparr>"
  by (simp add: snapshot_def parts_disk0 parseFields_def ParseUint_values countErr_def)

lemma parts_net0:
  "splitCSV (TrimSpace ''5,1000,100,1000,100,0,0'') =
     [''5'', ''1000'', ''100'', ''1000'', ''100'', ''0'', ''0'']"
  by code_simp

lemma snapshot_net0:
  "snapshot ''5,1000,100,1000,100,0,0'' =
     \<lparr>loadAvg = 5, memTotal = 1000, memUsed = 100, diskTotal = 1000, diskUsed = 100,
      netCap = 0, netUsed = 0, errNum = 0\<rparr>"
  by (simp add: snapshot_def parts_net0 parseFields_def ParseUint_values countErr_def)

lemma parts_load_mem0:
  "splitCSV (TrimSpace ''31,0,100,1000,100,1000,50'') =
     [''31'', ''0'', ''100'', ''1000'', ''100'', ''1000'', ''50'']"
  by code_simp

lemma snapshot_load_mem0:
  "snapshot ''31,0,100,1000,100,1000,50'' =
     \<lparr>loadAvg = 31, memTotal = 0, memUsed = 100, diskTotal = 1000, diskUsed = 100,
      netCap = 1000, netUsed = 50, errNum = 0\<rparr>"
  by (simp add: snapshot_def parts_load_mem0 parseFields_def ParseUint_values countErr_def)

lemma parts_range:
  "splitCSV (TrimSpace ''99999999999999999999,1000,500,1000,500,1000,500'') =
     [''99999999999999999999'', ''1000'', ''500'', ''1000'', ''500'', ''1000'', ''500'']"
  by code_simp

lemma snapshot_range:
  "snapshot ''99999999999999999999,1000,500,1000,500,1000,500'' =
     \<lparr>loadAvg = 18446744073709551615, memTotal = 1000, memUsed = 500, diskTotal = 1000,
      diskUsed = 500, netCap = 1000, netUsed = 500, errNum = 1\<rparr>"
  by (simp add: snapshot_def parts_range parseFields_def ParseUint_range ParseUint_values
      countErr_def)

lemma parts_big:
  "splitCSV (TrimSpace ''18446744073709551616,1000,500,1000,500,1000,500'') =
     [''18446744073709551616'', ''1000'', ''500'', ''1000'', ''500'', ''1000'', ''500'']"
  by code_simp

lemma parts_over:
  "splitCSV (TrimSpace ''5,1000,100,1000,2000,1000,50'') =
     [''5'', ''1000'', ''100'', ''1000'', ''2000'', ''1000'', ''50'']"
  by code_simp

lemma snapshot_over:
  "snapshot ''5,1000,100,1000,2000,1000,50'' =
     \<lparr>loadAvg = 5, memTotal = 1000, memUsed = 100, diskTotal = 1000, diskUsed = 2000,
      netCap = 1000, netUsed = 50, errNum = 0\<rparr>"
  by (simp add: snapshot_def parts_over parseFields_def ParseUint_values countErr_def)

lemma parts_W:
  "splitCSV (TrimSpace ''5,1000,100,1000,3000000,1000,2000'') =
     [''5'', ''1000'', ''100'', ''1000'', ''3000000'', ''1000'', ''2000'']"
  by code_simp

lemma snapshot_W:
  "snapshot ''5,1000,100,1000,3000000,1000,2000'' =
     \<lparr>loadAvg = 5, memTotal = 1000, memUsed = 100, diskTotal = 1000, diskUsed = 3000000,
      netCap = 1000, netUsed = 2000, errNum = 0\<rparr>"
  by (simp add: snapshot_def parts_W parseFields_def ParseUint_values countErr_def)

lemma parts_tiny:
  "splitCSV (TrimSpace ''5,1000,100,1000,1001,1,18446744073709551615'') =
     [''5'', ''1000'', ''100'', ''1000'', ''1001'', ''1'', ''18446744073709551615'']"
  by code_simp

lemma snapshot_tiny:
  "snapshot ''5,1000,100,1000,1001,1,18446744073709551615'' =
     \<lparr>loadAvg = 5, memTotal = 1000, memUsed = 100, diskTotal = 1000, diskUsed = 1001,
      netCap = 1, netUsed = 18446744073709551615, errNum = 0\<rparr>"
  by (simp add: snapshot_def parts_tiny parseFields_def ParseUint_values countErr_def)

section \<open>The properties\<close>

subsection \<open>Unparsable fields\<close>

text \<open>
  C1: a field that \<open>ParseUint\<close> rejects is counted, and the value kept for it is the
  value \<open>ParseUint\<close> returned with the error. For a syntax error that value is 0; for a
  numeral that does not fit 64 bits it is the largest 64-bit value, and the load check
  then runs on it. On the line below the first field is out of range: it is counted as
  unparsable, \<open>loadAvg\<close> is \<open>18446744073709551615\<close>, and the load alert is printed
  with that value.
\<close>

theorem range_error_field_value:
  "usable ''99999999999999999999,1000,500,1000,500,1000,500'' \<and>
   ParseUint (splitCSV (TrimSpace ''99999999999999999999,1000,500,1000,500,1000,500'') ! 0) =
     (18446744073709551615, Some ErrRange) \<and>
   errNum (snapshot ''99999999999999999999,1000,500,1000,500,1000,500'') = 1 \<and>
   loadAvg (snapshot ''99999999999999999999,1000,500,1000,500,1000,500'') =
     18446744073709551615 \<and>
   pollOnce (Response 200 (Some ''99999999999999999999,1000,500,1000,500,1000,500'')) [] =
     (None, [LoadLine 18446744073709551615])"
proof -
  let ?body = "''99999999999999999999,1000,500,1000,500,1000,500''"
  have u: "usable ?body"
    by (simp add: usable_def parts_range snapshot_range)
  have "checks (snapshot ?body) [] = (None, [LoadLine 18446744073709551615])"
    by (simp add: snapshot_range checks_unfold loadLines_def memLines_def diskLines_def
        netLines_def memPct_def diskPct_def netPct_def thresholds float64_of_values pct_values)
  then have "pollOnce (Response 200 (Some ?body)) [] = (None, [LoadLine 18446744073709551615])"
    using u by (simp only: pollOnce_usable)
  then show ?thesis
    using u by (simp add: parts_range snapshot_range ParseUint_range)
qed

subsection \<open>Field count\<close>

text \<open>
  C2: a line whose number of comma-separated segments is not 7 ends the cycle with the
  structural error, whatever the segments contain. The segments are the pieces between
  the commas, each trimmed, the empty ones kept, so their number is the number of commas
  plus one; no field is read and nothing is printed by \<open>pollOnce\<close>, and the
  caller prints its notice.
\<close>

theorem field_count_error:
  "splitCSV l = map TrimSpace (Split l) \<and>
   length (splitCSV l) = count_list l (CHR '','') + 1 \<and>
   (length (splitCSV (TrimSpace body)) \<noteq> 7 \<longrightarrow>
      pollOnce (Response 200 (Some body)) out =
        (Some (UnexpectedFieldNumber (length (splitCSV (TrimSpace body)))), out) \<and>
      tick (Response 200 (Some body)) out = out @ [UnableLine])"
  by (simp add: splitCSV_map length_Split pollOnce_def pollBody_def tick_def Let_def)

theorem field_count_error_witness:
  "length (splitCSV (TrimSpace ''5,1000,100,,100,1000,50,7'')) \<noteq> 7 \<and>
   pollOnce (Response 200 (Some ''5,1000,100,,100,1000,50,7'')) [] =
     (Some (UnexpectedFieldNumber 8), []) \<and>
   tick (Response 200 (Some ''5,1000,100,,100,1000,50,7'')) [] = [UnableLine]"
  using field_count_error [of "[]" "''5,1000,100,,100,1000,50,7''" "[]"]
  by (simp add: parts_F)

subsection \<open>The budget of three unparsable fields\<close>

text \<open>
  C3: on a line of seven fields the count kept by \<open>pollOnce\<close> is the number of
  fields whose \<open>ParseUint\<close> returned an error. With more than three the cycle
  fails with the too-many-errors error before any check has printed anything; with at
  most three the result of the cycle is the result of the four checks on the values read.
\<close>

theorem unparsable_field_budget:
  assumes "length (splitCSV (TrimSpace body)) = 7"
  shows "errNum (snapshot body) =
           length (filter (\<lambda>p. snd (ParseUint p) \<noteq> None) (splitCSV (TrimSpace body))) \<and>
         (3 < errNum (snapshot body) \<longrightarrow>
            pollOnce (Response 200 (Some body)) out = (Some TooManyErrors, out) \<and>
            tick (Response 200 (Some body)) out = out @ [UnableLine]) \<and>
         (errNum (snapshot body) \<le> 3 \<longrightarrow>
            pollOnce (Response 200 (Some body)) out = checks (snapshot body) out)"
  using assms
  by (simp add: snapshot_def errNum_count pollOnce_def pollBody_def tick_def Let_def)

theorem unparsable_field_budget_witness:
  "length (splitCSV (TrimSpace ''a,b,c,d,100,1000,50'')) = 7 \<and>
   errNum (snapshot ''a,b,c,d,100,1000,50'') = 4 \<and>
   pollOnce (Response 200 (Some ''a,b,c,d,100,1000,50'')) [] = (Some TooManyErrors, []) \<and>
   length (splitCSV (TrimSpace ''a,b,c,1000,100,1000,50'')) = 7 \<and>
   errNum (snapshot ''a,b,c,1000,100,1000,50'') = 3 \<and>
   pollOnce (Response 200 (Some ''a,b,c,1000,100,1000,50'')) [] = (Some MemTotalZero, [])"
  using unparsable_field_budget [of "''a,b,c,d,100,1000,50''" "[]"]
    unparsable_field_budget [of "''a,b,c,1000,100,1000,50''" "[]"]
  by (simp add: parts_E parts_4bad snapshot_E snapshot_4bad checks_unfold loadLines_def
      loadAverageThreshold_def)

subsection \<open>Zero denominators\<close>

text \<open>
  C4: on a usable snapshot a zero denominator ends the cycle with an error; it is never
  taken as a usage of 0 percent. With \<open>memTotal = 0\<close> the cycle returns the memory
  error and only the load check has run. With \<open>diskTotal = 0\<close> it returns a guard error
  (the disk one when \<open>memTotal\<close> is not 0) and prints neither a disk nor a network line.
  With \<open>netCap = 0\<close> it returns a guard error (the network one when the other two
  denominators are not 0) and prints no network line. In each case the caller prints its
  notice.
\<close>

theorem zero_denominator_aborts:
  assumes "usable body" and "m = snapshot body"
  shows "(memTotal m = 0 \<longrightarrow>
            pollOnce (Response 200 (Some body)) out = (Some MemTotalZero, out @ loadLines m)) \<and>
         (diskTotal m = 0 \<longrightarrow>
            fst (pollOnce (Response 200 (Some body)) out) \<in> {Some MemTotalZero, Some DiskTotalZero} \<and>
            (memTotal m \<noteq> 0 \<longrightarrow>
               pollOnce (Response 200 (Some body)) out =
                 (Some DiskTotalZero, out @ loadLines m @ memLines m)) \<and>
            (\<forall>k. DiskLine k \<notin> set (snd (pollOnce (Response 200 (Some body)) []))) \<and>
            (\<forall>r. NetLine r \<notin> set (snd (pollOnce (Response 200 (Some body)) [])))) \<and>
         (netCap m = 0 \<longrightarrow>
            fst (pollOnce (Response 200 (Some body)) out)
              \<in> {Some MemTotalZero, Some DiskTotalZero, Some NetCapZero} \<and>
            (memTotal m \<noteq> 0 \<and> diskTotal m \<noteq> 0 \<longrightarrow>
               pollOnce (Response 200 (Some body)) out =
                 (Some NetCapZero, out @ loadLines m @ memLines m @ diskLines m)) \<and>
            (\<forall>r. NetLine r \<notin> set (snd (pollOnce (Response 200 (Some body)) [])))) \<and>
         (memTotal m = 0 \<or> diskTotal m = 0 \<or> netCap m = 0 \<longrightarrow>
            tick (Response 200 (Some body)) out =
              snd (pollOnce (Response 200 (Some body)) out) @ [UnableLine])"
  using assms
  by (simp add: pollOnce_usable tick_def checks_unfold lines_defs)

theorem zero_denominator_aborts_witness:
  "usable ''5,0,0,1000,100,1000,50'' \<and>
   memTotal (snapshot ''5,0,0,1000,100,1000,50'') = 0 \<and>
   pollOnce (Response 200 (Some ''5,0,0,1000,100,1000,50'')) [] = (Some MemTotalZero, []) \<and>
   tick (Response 200 (Some ''5,0,0,1000,100,1000,50'')) [] = [UnableLine] \<and>
   usable ''5,1000,100,0,0,1000,50'' \<and>
   diskTotal (snapshot ''5,1000,100,0,0,1000,50'') = 0 \<and>
   pollOnce (Response 200 (Some ''5,1000,100,0,0,1000,50'')) [] = (Some DiskTotalZero, []) \<and>
   usable ''5,1000,100,1000,100,0,0'' \<and>
   netCap (snapshot ''5,1000,100,1000,100,0,0'') = 0 \<and>
   pollOnce (Response 200 (Some ''5,1000,100,1000,100,0,0'')) [] = (Some NetCapZero, [])"
proof -
  have u: "usable ''5,0,0,1000,100,1000,50''" "usable ''5,1000,100,0,0,1000,50''"
    "usable ''5,1000,100,1000,100,0,0''"
    by (simp_all add: usable_def parts_D snapshot_D parts_disk0 snapshot_disk0 parts_net0
        snapshot_net0)
  from zero_denominator_aborts [OF u(1) refl, of "[]"]
    zero_denominator_aborts [OF u(2) refl, of "[]"]
    zero_denominator_aborts [OF u(3) refl, of "[]"] u
  show ?thesis
    by (simp add: snapshot_D snapshot_disk0 snapshot_net0 lines_defs pct_defs thresholds
        float64_of_values pct_values)
qed

subsection \<open>Strict comparisons\<close>

text \<open>
  C5: the four comparisons are strict. On a usable snapshot a line of a check is printed
  exactly when the check is reached and its figure is strictly above its threshold: the
  load above 30, the computed memory percentage above 80, the computed disk percentage
  above 90, the computed network percentage above 90. A figure equal to its threshold
  prints nothing; and for amounts below \<open>2\<^sup>5\<^sup>3\<close> a ratio of exactly 80 percent
  (memory) or 90 percent (disk, network) gives a computed percentage equal to the
  threshold. On the line \<open>10,1000,500,1000,900,1000,500\<close> the computed disk
  percentage is exactly 90, no line is printed and the cycle succeeds.
\<close>

theorem strict_thresholds:
  assumes "usable body" and "m = snapshot body"
    and "ls = snd (pollOnce (Response 200 (Some body)) [])"
  shows "((\<exists>v. LoadLine v \<in> set ls) \<longleftrightarrow> 30 < loadAvg m) \<and>
         ((\<exists>p. MemLine p \<in> set ls) \<longleftrightarrow> memTotal m \<noteq> 0 \<and> 80 < memPct m) \<and>
         ((\<exists>k. DiskLine k \<in> set ls) \<longleftrightarrow>
            memTotal m \<noteq> 0 \<and> diskTotal m \<noteq> 0 \<and> 90 < diskPct m) \<and>
         ((\<exists>r. NetLine r \<in> set ls) \<longleftrightarrow>
            memTotal m \<noteq> 0 \<and> diskTotal m \<noteq> 0 \<and> netCap m \<noteq> 0 \<and> 90 < netPct m) \<and>
         (loadAvg m = 30 \<longrightarrow> (\<forall>v. LoadLine v \<notin> set ls)) \<and>
         (memPct m = 80 \<longrightarrow> (\<forall>p. MemLine p \<notin> set ls)) \<and>
         (diskPct m = 90 \<longrightarrow> (\<forall>k. DiskLine k \<notin> set ls)) \<and>
         (netPct m = 90 \<longrightarrow> (\<forall>r. NetLine r \<notin> set ls)) \<and>
         (uint (memUsed m) < 2 ^ 53 \<and> uint (memTotal m) < 2 ^ 53 \<and> memTotal m \<noteq> 0 \<and>
            5 * uint (memUsed m) = 4 * uint (memTotal m) \<longrightarrow> memPct m = 80) \<and>
         (uint (diskUsed m) < 2 ^ 53 \<and> uint (diskTotal m) < 2 ^ 53 \<and> diskTotal m \<noteq> 0 \<and>
            10 * uint (diskUsed m) = 9 * uint (diskTotal m) \<longrightarrow> diskPct m = 90) \<and>
         (uint (netUsed m) < 2 ^ 53 \<and> uint (netCap m) < 2 ^ 53 \<and> netCap m \<noteq> 0 \<and>
            10 * uint (netUsed m) = 9 * uint (netCap m) \<longrightarrow> netPct m = 90) \<and>
         diskPct (snapshot ''10,1000,500,1000,900,1000,500'') = 90 \<and>
         pollOnce (Response 200 (Some ''10,1000,500,1000,900,1000,500'')) [] = (None, [])"
proof -
  have printed:
    "((\<exists>v. LoadLine v \<in> set ls) \<longleftrightarrow> 30 < loadAvg m) \<and>
     ((\<exists>p. MemLine p \<in> set ls) \<longleftrightarrow> memTotal m \<noteq> 0 \<and> 80 < memPct m) \<and>
     ((\<exists>k. DiskLine k \<in> set ls) \<longleftrightarrow>
        memTotal m \<noteq> 0 \<and> diskTotal m \<noteq> 0 \<and> 90 < diskPct m) \<and>
     ((\<exists>r. NetLine r \<in> set ls) \<longleftrightarrow>
        memTotal m \<noteq> 0 \<and> diskTotal m \<noteq> 0 \<and> netCap m \<noteq> 0 \<and> 90 < netPct m)"
    using assms by (simp add: pollOnce_usable checks_unfold lines_defs thresholds)
  have equal:
    "(loadAvg m = 30 \<longrightarrow> (\<forall>v. LoadLine v \<notin> set ls)) \<and>
     (memPct m = 80 \<longrightarrow> (\<forall>p. MemLine p \<notin> set ls)) \<and>
     (diskPct m = 90 \<longrightarrow> (\<forall>k. DiskLine k \<notin> set ls)) \<and>
     (netPct m = 90 \<longrightarrow> (\<forall>r. NetLine r \<notin> set ls))"
    using assms by (simp add: pollOnce_usable checks_unfold lines_defs thresholds)
  have mem: "memPct m = 80"
    if "uint (memUsed m) < 2 ^ 53" "uint (memTotal m) < 2 ^ 53" "memTotal m \<noteq> 0"
      "5 * uint (memUsed m) = 4 * uint (memTotal m)"
    unfolding memPct_def using that by (rule pct_exact_ratio(1))
  have disk: "diskPct m = 90"
    if "uint (diskUsed m) < 2 ^ 53" "uint (diskTotal m) < 2 ^ 53" "diskTotal m \<noteq> 0"
      "10 * uint (diskUsed m) = 9 * uint (diskTotal m)"
    unfolding diskPct_def using that by (rule pct_exact_ratio(2))
  have net: "netPct m = 90"
    if "uint (netUsed m) < 2 ^ 53" "uint (netCap m) < 2 ^ 53" "netCap m \<noteq> 0"
      "10 * uint (netUsed m) = 9 * uint (netCap m)"
    unfolding netPct_def using that by (rule pct_exact_ratio(2))
  from printed equal mem disk net show ?thesis
    by (simp add: cycle_A diskPct_A)
qed

theorem strict_thresholds_witness:
  "usable ''30,1000,800,1000,900,1000,900'' \<and>
   loadAvg (snapshot ''30,1000,800,1000,900,1000,900'') = 30 \<and>
   memPct (snapshot ''30,1000,800,1000,900,1000,900'') = 80 \<and>
   diskPct (snapshot ''30,1000,800,1000,900,1000,900'') = 90 \<and>
   netPct (snapshot ''30,1000,800,1000,900,1000,900'') = 90 \<and>
   (\<forall>v. LoadLine v
      \<notin> set (snd (pollOnce (Response 200 (Some ''30,1000,800,1000,900,1000,900'')) []))) \<and>
   (\<forall>p. MemLine p
      \<notin> set (snd (pollOnce (Response 200 (Some ''30,1000,800,1000,900,1000,900'')) []))) \<and>
   (\<forall>k. DiskLine k
      \<notin> set (snd (pollOnce (Response 200 (Some ''30,1000,800,1000,900,1000,900'')) []))) \<and>
   (\<forall>r. NetLine r
      \<notin> set (snd (pollOnce (Response 200 (Some ''30,1000,800,1000,900,1000,900'')) [])))"
proof -
  let ?m = "snapshot ''30,1000,800,1000,900,1000,900''"
  have v: "loadAvg ?m = 30" "memPct ?m = 80" "diskPct ?m = 90" "netPct ?m = 90"
    by (simp_all add: snapshot_T pct_defs float64_of_values pct_values)
  from strict_thresholds [OF usable_T refl refl] usable_T v
  show ?thesis by simp
qed

subsection \<open>The figure of the disk alert\<close>

text \<open>
  C6: when the disk check fires, the figure of the alert is the \<open>int64\<close> reading of the
  wrapping difference \<open>diskTotal - diskUsed\<close>, divided by 1048576 with the quotient
  truncated towards zero. When \<open>diskUsed\<close> is not above \<open>diskTotal\<close> this is the
  difference divided by 1048576 and rounded down. On the line
  \<open>5,1000,100,1000,950,1000,50\<close> the only line printed is the disk alert with 0 Mb.
\<close>

theorem disk_alert_figure:
  assumes "usable body" and "m = snapshot body"
    and "memTotal m \<noteq> 0" and "diskTotal m \<noteq> 0" and "90 < diskPct m"
  shows "(DiskLine k \<in> set (snd (pollOnce (Response 200 (Some body)) [])) \<longleftrightarrow>
            k = sint (diskTotal m - diskUsed m) sdiv 1048576) \<and>
         (diskUsed m \<le> diskTotal m \<longrightarrow>
            sint (diskTotal m - diskUsed m) sdiv 1048576 =
              (uint (diskTotal m) - uint (diskUsed m)) div 1048576) \<and>
         pollOnce (Response 200 (Some ''5,1000,100,1000,950,1000,50'')) [] =
           (None, [DiskLine 0])"
proof -
  have "DiskLine k \<in> set (snd (pollOnce (Response 200 (Some body)) [])) \<longleftrightarrow>
      k = sint (diskTotal m - diskUsed m) sdiv 1048576"
    using assms
    by (auto simp: pollOnce_usable checks_unfold lines_defs thresholds freeMB_def)
  moreover have "sint (diskTotal m - diskUsed m) sdiv 1048576 =
      (uint (diskTotal m) - uint (diskUsed m)) div 1048576" if "diskUsed m \<le> diskTotal m"
    using freeMB_no_wrap [OF that assms(4) assms(5)] by (simp add: freeMB_def)
  ultimately show ?thesis using cycle_C by simp
qed

theorem disk_alert_figure_witness:
  "usable ''5,1000,100,1000,950,1000,50'' \<and>
   memTotal (snapshot ''5,1000,100,1000,950,1000,50'') \<noteq> 0 \<and>
   diskTotal (snapshot ''5,1000,100,1000,950,1000,50'') \<noteq> 0 \<and>
   90 < diskPct (snapshot ''5,1000,100,1000,950,1000,50'') \<and>
   diskUsed (snapshot ''5,1000,100,1000,950,1000,50'')
     \<le> diskTotal (snapshot ''5,1000,100,1000,950,1000,50'') \<and>
   DiskLine ((1000 - 950) div 1048576)
     \<in> set (snd (pollOnce (Response 200 (Some ''5,1000,100,1000,950,1000,50'')) []))"
proof -
  let ?m = "snapshot ''5,1000,100,1000,950,1000,50''"
  have a: "memTotal ?m \<noteq> 0" "diskTotal ?m \<noteq> 0" "diskUsed ?m \<le> diskTotal ?m"
    by (simp_all add: snapshot_C)
  have p: "90 < diskPct ?m"
    by (simp add: snapshot_C diskPct_def float64_of_values pct_values)
  from disk_alert_figure [OF usable_C refl a(1) a(2) p, of "(1000 - 950) div 1048576"]
    usable_C a p
  show ?thesis by (simp add: snapshot_C)
qed

text \<open>
  The disk check also fires when \<open>diskUsed\<close> is above \<open>diskTotal\<close>. On the line below
  the alert reports 0, which is neither the difference \<open>1000 - 2000\<close> divided by 1048576
  and rounded down (\<open>-1\<close>) nor the wrapped difference rounded down.
\<close>

theorem disk_figure_not_rounded_down:
  "usable ''5,1000,100,1000,2000,1000,50'' \<and>
   memTotal (snapshot ''5,1000,100,1000,2000,1000,50'') \<noteq> 0 \<and>
   diskTotal (snapshot ''5,1000,100,1000,2000,1000,50'') \<noteq> 0 \<and>
   90 < diskPct (snapshot ''5,1000,100,1000,2000,1000,50'') \<and>
   pollOnce (Response 200 (Some ''5,1000,100,1000,2000,1000,50'')) [] = (None, [DiskLine 0]) \<and>
   (uint (diskTotal (snapshot ''5,1000,100,1000,2000,1000,50'')) -
      uint (diskUsed (snapshot ''5,1000,100,1000,2000,1000,50''))) div 1048576 = - 1 \<and>
   uint (diskTotal (snapshot ''5,1000,100,1000,2000,1000,50'') -
      diskUsed (snapshot ''5,1000,100,1000,2000,1000,50'')) div 1048576 = 17592186044415"
proof -
  have u: "usable ''5,1000,100,1000,2000,1000,50''"
    by (simp add: usable_def parts_over snapshot_over)
  have "pollOnce (Response 200 (Some ''5,1000,100,1000,2000,1000,50'')) [] =
      (None, [DiskLine 0])"
    by (simp add: pollOnce_usable u snapshot_over checks_unfold lines_defs pct_defs
        thresholds float64_of_values pct_values freeMB_def)
  then show ?thesis
    using u by (simp add: snapshot_over diskPct_def float64_of_values pct_values)
qed

subsection \<open>The range of a field\<close>

text \<open>
  C7: a field that is a decimal numeral below \<open>2\<^sup>6\<^sup>4\<close> is read as its value and is not
  counted as unparsable. The fields are 64-bit: a numeral of \<open>2\<^sup>6\<^sup>4\<close> or more is
  rejected with a range error and counted.
\<close>

theorem numeral_accepted_below_2_64:
  assumes "isNumeral s"
  shows "(decimal s < 2 ^ 64 \<longrightarrow>
            ParseUint s = (of_nat (decimal s), None) \<and>
            unat (fst (ParseUint s)) = decimal s \<and>
            countErr (snd (ParseUint s)) n = n) \<and>
         (2 ^ 64 \<le> decimal s \<longrightarrow>
            snd (ParseUint s) = Some ErrRange \<and>
            countErr (snd (ParseUint s)) n = n + 1)"
  using ParseUint_numeral [OF assms]
  by (auto simp: countErr_def unat_of_nat)

theorem numeral_accepted_below_2_64_witness:
  "isNumeral ''18446744073709551615'' \<and>
   decimal ''18446744073709551615'' < 2 ^ 64 \<and>
   ParseUint ''18446744073709551615'' = (18446744073709551615, None) \<and>
   countErr (snd (ParseUint ''18446744073709551615'')) 0 = 0 \<and>
   isNumeral ''18446744073709551616'' \<and>
   2 ^ 64 \<le> decimal ''18446744073709551616'' \<and>
   snd (ParseUint ''18446744073709551616'') = Some ErrRange \<and>
   countErr (snd (ParseUint ''18446744073709551616'')) 0 = 1"
  using numeral_accepted_below_2_64 [of "''18446744073709551615''" 0]
    numeral_accepted_below_2_64 [of "''18446744073709551616''" 0]
  by (simp add: isNumeral_def isDigit_def decimal_def countErr_def)

text \<open>
  The numeral of \<open>2\<^sup>6\<^sup>4\<close> is rejected: every field of the line below is a decimal
  numeral, and one field is counted as unparsable.
\<close>

theorem numeral_2_64_rejected:
  "list_all isNumeral (splitCSV (TrimSpace ''18446744073709551616,1000,500,1000,500,1000,500'')) \<and>
   decimal ''18446744073709551616'' = 2 ^ 64 \<and>
   snd (ParseUint ''18446744073709551616'') = Some ErrRange \<and>
   errNum (snapshot ''18446744073709551616,1000,500,1000,500,1000,500'') = 1"
  by (simp add: parts_big snapshot_def parseFields_def ParseUint_range ParseUint_values
      countErr_def isNumeral_def isDigit_def decimal_def)

subsection \<open>Determinism\<close>

text \<open>
  C8: the four checks are a function of the values read and of the fixed thresholds; the
  output is only appended to. Whatever has been printed before, evaluating a snapshot
  gives the same outcome and prints the same lines in the same order, so a second
  evaluation repeats the first; the same holds of a whole cycle on the same response.
\<close>

theorem evaluation_deterministic:
  "checks m out = (fst (checks m []), out @ snd (checks m [])) \<and>
   checks m (snd (checks m out)) =
     (fst (checks m out), out @ snd (checks m []) @ snd (checks m [])) \<and>
   pollOnce resp out = (fst (pollOnce resp []), out @ snd (pollOnce resp []))"
proof -
  have c: "checks m' out' = (fst (checks m' []), out' @ snd (checks m' []))" for m' out'
    by (simp add: checks_unfold)
  have b: "pollBody body out = (fst (pollBody body []), out @ snd (pollBody body []))" for body
    by (auto simp: pollBody_def Let_def intro: c)
  have p: "pollOnce resp out = (fst (pollOnce resp []), out @ snd (pollOnce resp []))"
    by (auto simp: pollOnce_def split: response.split option.split intro: b)
  have "checks m (snd (checks m out)) =
      (fst (checks m []), snd (checks m out) @ snd (checks m []))"
    by (rule c)
  then show ?thesis using c [of m out] p by simp
qed

subsection \<open>Wrap-around of the remaining capacity\<close>

text \<open>
  C9: the two subtractions are on \<open>uint64\<close> and wrap. On a usable snapshot whose memory
  and disk totals are not 0, \<open>diskUsed > diskTotal\<close> always fires the disk alert, and its
  figure is the \<open>int64\<close> reading of \<open>2\<^sup>6\<^sup>4 - (diskUsed - diskTotal)\<close> divided by 1048576,
  truncated towards zero: it is negative exactly when the excess is at least 1048576 and
  at most \<open>2\<^sup>6\<^sup>3\<close>, and 0 or positive otherwise. With a network capacity that is not 0,
  \<open>netUsed > netCap\<close> always fires the network alert, and its figure is the wrapped
  difference \<open>2\<^sup>6\<^sup>4 - (netUsed - netCap)\<close> converted to \<open>float64\<close>, times 8, divided
  by 1000000: a number above 0, at least \<open>2\<^sup>-\<^sup>1\<^sup>7\<close> and at most \<open>2\<^sup>4\<^sup>8\<close>.
\<close>

theorem wrapped_remaining_capacity:
  assumes "usable body" and "m = snapshot body"
    and "memTotal m \<noteq> 0" and "diskTotal m \<noteq> 0"
    and "ls = snd (pollOnce (Response 200 (Some body)) [])"
  shows "(diskTotal m < diskUsed m \<longrightarrow>
            DiskLine (sint (diskTotal m - diskUsed m) sdiv 1048576) \<in> set ls \<and>
            uint (diskTotal m - diskUsed m) =
              2 ^ 64 - (uint (diskUsed m) - uint (diskTotal m)) \<and>
            (sint (diskTotal m - diskUsed m) sdiv 1048576 < 0 \<longleftrightarrow>
               2 ^ 20 \<le> uint (diskUsed m) - uint (diskTotal m) \<and>
               uint (diskUsed m) - uint (diskTotal m) \<le> 2 ^ 63)) \<and>
         (netCap m \<noteq> 0 \<and> netCap m < netUsed m \<longrightarrow>
            NetLine (fdiv (fmul (float64_of (netCap m - netUsed m)) 8) 1000000) \<in> set ls \<and>
            uint (netCap m - netUsed m) =
              2 ^ 64 - (uint (netUsed m) - uint (netCap m)) \<and>
            0 < fdiv (fmul (float64_of (netCap m - netUsed m)) 8) 1000000 \<and>
            1 / 2 ^ 17 \<le> fdiv (fmul (float64_of (netCap m - netUsed m)) 8) 1000000 \<and>
            fdiv (fmul (float64_of (netCap m - netUsed m)) 8) 1000000 \<le> 2 ^ 48)"
proof -
  have ls: "ls = snd (checks m [])"
    using assms by (simp add: pollOnce_usable)
  have disk: "DiskLine (sint (diskTotal m - diskUsed m) sdiv 1048576) \<in> set ls"
    if "diskTotal m < diskUsed m"
  proof -
    have "90 < diskPct m"
      unfolding diskPct_def using that assms(4) by (rule over_capacity_fires)
    then show ?thesis
      using assms(3,4) by (simp add: ls checks_unfold lines_defs thresholds freeMB_def)
  qed
  have net: "NetLine (fdiv (fmul (float64_of (netCap m - netUsed m)) 8) 1000000) \<in> set ls"
    if "netCap m \<noteq> 0" and "netCap m < netUsed m"
  proof -
    have "90 < netPct m"
      unfolding netPct_def using that(2) that(1) by (rule over_capacity_fires)
    then show ?thesis
      using assms(3,4) that(1)
      by (simp add: ls checks_unfold lines_defs thresholds freeMbit_def)
  qed
  have pos: "0 < fdiv (fmul (float64_of (netCap m - netUsed m)) 8) 1000000"
    if "netCap m < netUsed m"
    using freeMbit_pos [of m] that by (simp add: freeMbit_def)
  have low: "1 / 2 ^ 17 \<le> fdiv (fmul (float64_of (netCap m - netUsed m)) 8) 1000000"
    if "netCap m < netUsed m"
    using freeMbit_range(1) [of m] that by (simp add: freeMbit_def)
  have high: "fdiv (fmul (float64_of (netCap m - netUsed m)) 8) 1000000 \<le> 2 ^ 48"
    if "netCap m < netUsed m"
    using freeMbit_range(2) [of m] that by (simp add: freeMbit_def)
  show ?thesis
    using disk net pos low high freeMB_wrap [of m]
      free_bytes_wrap [of "netCap m" "netUsed m"]
    by (simp add: freeMB_def)
qed

theorem wrapped_remaining_capacity_witness:
  "usable ''5,1000,100,1000,3000000,1000,2000'' \<and>
   memTotal (snapshot ''5,1000,100,1000,3000000,1000,2000'') \<noteq> 0 \<and>
   diskTotal (snapshot ''5,1000,100,1000,3000000,1000,2000'') \<noteq> 0 \<and>
   diskTotal (snapshot ''5,1000,100,1000,3000000,1000,2000'')
     < diskUsed (snapshot ''5,1000,100,1000,3000000,1000,2000'') \<and>
   netCap (snapshot ''5,1000,100,1000,3000000,1000,2000'') \<noteq> 0 \<and>
   netCap (snapshot ''5,1000,100,1000,3000000,1000,2000'')
     < netUsed (snapshot ''5,1000,100,1000,3000000,1000,2000'') \<and>
   DiskLine (- 2)
     \<in> set (snd (pollOnce (Response 200 (Some ''5,1000,100,1000,3000000,1000,2000'')) [])) \<and>
   NetLine (fdiv (fmul (float64_of (1000 - 2000)) 8) 1000000)
     \<in> set (snd (pollOnce (Response 200 (Some ''5,1000,100,1000,3000000,1000,2000'')) [])) \<and>
   0 < fdiv (fmul (float64_of (1000 - 2000)) 8) 1000000"
proof -
  let ?m = "snapshot ''5,1000,100,1000,3000000,1000,2000''"
  have u: "usable ''5,1000,100,1000,3000000,1000,2000''"
    by (simp add: usable_def parts_W snapshot_W)
  have a: "memTotal ?m \<noteq> 0" "diskTotal ?m \<noteq> 0" "diskTotal ?m < diskUsed ?m"
    "netCap ?m \<noteq> 0" "netCap ?m < netUsed ?m"
    by (simp_all add: snapshot_W)
  from wrapped_remaining_capacity [OF u refl a(1) a(2) refl] u a
  show ?thesis by (simp add: snapshot_W)
qed

text \<open>
  On the line below both amounts used are above their totals and both alerts are printed.
  The disk figure is 0, not a negative number: the \<open>int64\<close> reading of the wrapped
  difference is \<open>-1\<close>, and the division truncates. The wrapped network difference is 2,
  and the figure is about 0.000016.
\<close>

theorem wrapped_figures_not_negative_not_huge:
  "usable ''5,1000,100,1000,1001,1,18446744073709551615'' \<and>
   diskTotal (snapshot ''5,1000,100,1000,1001,1,18446744073709551615'')
     < diskUsed (snapshot ''5,1000,100,1000,1001,1,18446744073709551615'') \<and>
   netCap (snapshot ''5,1000,100,1000,1001,1,18446744073709551615'')
     < netUsed (snapshot ''5,1000,100,1000,1001,1,18446744073709551615'') \<and>
   pollOnce (Response 200 (Some ''5,1000,100,1000,1001,1,18446744073709551615'')) [] =
     (None, [DiskLine 0, NetLine (4722366482869645 / 295147905179352825856)]) \<and>
   (4722366482869645 / 295147905179352825856 :: rat) < 1 / 10000"
proof -
  have u: "usable ''5,1000,100,1000,1001,1,18446744073709551615''"
    by (simp add: usable_def parts_tiny snapshot_tiny)
  have "pollOnce (Response 200 (Some ''5,1000,100,1000,1001,1,18446744073709551615'')) [] =
      (None, [DiskLine 0, NetLine (4722366482869645 / 295147905179352825856)])"
    by (simp add: pollOnce_usable u snapshot_tiny checks_unfold lines_defs pct_defs
        thresholds float64_of_values float64_of_max pct_values pct_tiny
        freeMB_def freeMbit_def sdiv_one float64_of_wrapped_tiny)
  then show ?thesis
    using u by (simp add: snapshot_tiny)
qed

subsection \<open>Alerts printed before an abort\<close>

text \<open>
  C10: the load alert is printed before the memory check returns its error. On a usable
  snapshot with the load above the threshold and \<open>memTotal = 0\<close>, the cycle returns the
  memory error and its output ends with the load alert; the caller then prints its notice
  after it.
\<close>

theorem load_alert_survives_abort:
  assumes "usable body" and "m = snapshot body"
    and "30 < loadAvg m" and "memTotal m = 0"
  shows "pollOnce (Response 200 (Some body)) out =
           (Some MemTotalZero, out @ [LoadLine (loadAvg m)]) \<and>
         tick (Response 200 (Some body)) out = out @ [LoadLine (loadAvg m), UnableLine]"
  using assms
  by (simp add: pollOnce_usable tick_def checks_unfold loadLines_def thresholds)

theorem load_alert_survives_abort_witness:
  "usable ''31,0,100,1000,100,1000,50'' \<and>
   30 < loadAvg (snapshot ''31,0,100,1000,100,1000,50'') \<and>
   memTotal (snapshot ''31,0,100,1000,100,1000,50'') = 0 \<and>
   pollOnce (Response 200 (Some ''31,0,100,1000,100,1000,50'')) [] =
     (Some MemTotalZero, [LoadLine 31]) \<and>
   tick (Response 200 (Some ''31,0,100,1000,100,1000,50'')) [] = [LoadLine 31, UnableLine]"
proof -
  have u: "usable ''31,0,100,1000,100,1000,50''"
    by (simp add: usable_def parts_load_mem0 snapshot_load_mem0)
  have l: "30 < loadAvg (snapshot ''31,0,100,1000,100,1000,50'')"
    by (simp add: snapshot_load_mem0)
  have z: "memTotal (snapshot ''31,0,100,1000,100,1000,50'') = 0"
    by (simp add: snapshot_load_mem0)
  from load_alert_survives_abort [OF u refl l z, of "[]"] u l z
  show ?thesis by (simp add: snapshot_load_mem0)
qed

end
